theory Spec2Isabelle
  imports Main "HOL-Library.AList"
begin

section \<open>Strings and JSON values\<close>

text \<open>
  JavaScript's \<^verbatim>\<open>s.startsWith(p)\<close> and \<^verbatim>\<open>s.includes(p)\<close> on strings, read as lists of
  code units; the second is \<open>str_includes\<close> here, the plain name being reserved.
\<close>

fun startsWith :: "string \<Rightarrow> string \<Rightarrow> bool" where
  "startsWith s [] = True"
| "startsWith [] (p # ps) = False"
| "startsWith (c # s) (p # ps) = (c = p \<and> startsWith s ps)"

fun str_includes :: "string \<Rightarrow> string \<Rightarrow> bool" where
  "str_includes [] p = (p = [])"
| "str_includes (c # s) p = (startsWith (c # s) p \<or> str_includes s p)"

text \<open>
  The values \<^verbatim>\<open>JSON.stringify\<close> is applied to: \<^verbatim>\<open>params\<close> and \<^verbatim>\<open>body\<close> of a request.
  An object is the list of its own properties in the order the engine enumerates them
  (for keys that are not array indices: insertion order). Numbers are restricted to
  integers, which print in decimal.
\<close>

datatype json =
    JNull
  | JBool bool
  | JNum int
  | JStr string
  | JArr "json list"
  | JObj "(string \<times> json) list"

definition digit :: "nat \<Rightarrow> char" where
  "digit d = char_of (48 + d)"

fun digits :: "nat \<Rightarrow> string" where
  "digits n = (if n < 10 then [digit n] else digits (n div 10) @ [digit (n mod 10)])"

definition show_int :: "int \<Rightarrow> string" where
  "show_int i = (if i < 0 then CHR ''-'' # digits (nat (- i)) else digits (nat i))"

definition hex_digit :: "nat \<Rightarrow> char" where
  "hex_digit d = (if d < 10 then char_of (48 + d) else char_of (87 + d))"

text \<open>
  \<^verbatim>\<open>QuoteJSONString\<close>: the double quote (code 34) and the backslash (code 92) are escaped
  with a backslash, the control characters below 32 by their short form or as
  \<^verbatim>\<open>\u00XX\<close>.
\<close>

definition escape_char :: "char \<Rightarrow> string" where
  "escape_char c =
     (let n = (of_char c :: nat) in
      if n = 34 then [char_of (92::nat), char_of (34::nat)]
      else if n = 92 then [char_of (92::nat), char_of (92::nat)]
      else if n = 8 then [char_of (92::nat), CHR ''b'']
      else if n = 9 then [char_of (92::nat), CHR ''t'']
      else if n = 10 then [char_of (92::nat), CHR ''n'']
      else if n = 12 then [char_of (92::nat), CHR ''f'']
      else if n = 13 then [char_of (92::nat), CHR ''r'']
      else if n < 32 then
        [char_of (92::nat), CHR ''u'', CHR ''0'', CHR ''0'', hex_digit (n div 16), hex_digit (n mod 16)]
      else [c])"

definition quote :: "string \<Rightarrow> string" where
  "quote s = char_of (34::nat) # concat (map escape_char s) @ [char_of (34::nat)]"

fun join :: "string \<Rightarrow> string list \<Rightarrow> string" where
  "join sep [] = []"
| "join sep [x] = x"
| "join sep (x # y # ys) = x @ sep @ join sep (y # ys)"

primrec stringify :: "json \<Rightarrow> string" where
  "stringify JNull = ''null''"
| "stringify (JBool b) = (if b then ''true'' else ''false'')"
| "stringify (JNum i) = show_int i"
| "stringify (JStr s) = quote s"
| "stringify (JArr xs) = ''['' @ join '','' (map stringify xs) @ '']''"
| "stringify (JObj ps) =
     ''{'' @ join '','' (map (\<lambda>kv. quote (fst kv) @ '':'' @ snd kv) (map (map_prod id stringify) ps)) @ ''}''"

section \<open>requestManager.js: cache key and cache invalidation\<close>

text \<open>
  \<^verbatim>\<open>generateCacheKey(endpoint, params)\<close> is the endpoint, a colon and the default JSON
  text of its second argument; \<^verbatim>\<open>optimizedRequest\<close> passes the object literal
  \<^verbatim>\<open>{ method, params, body }\<close>, whose properties are in that order.
\<close>

definition generateCacheKey :: "string \<Rightarrow> json \<Rightarrow> string" where
  "generateCacheKey endpoint params = endpoint @ '':'' @ stringify params"

definition request_identity :: "string \<Rightarrow> json \<Rightarrow> json \<Rightarrow> json" where
  "request_identity method params body =
     JObj [(''method'', JStr method), (''params'', params), (''body'', body)]"

definition cacheKey :: "string \<Rightarrow> string \<Rightarrow> json \<Rightarrow> json \<Rightarrow> string" where
  "cacheKey endpoint method params body =
     generateCacheKey endpoint (request_identity method params body)"

text \<open>
  Structural equality of JSON values, objects compared as maps from property name to
  value (the order of the properties is ignored), and the finer relation that also asks
  every pair of corresponding objects to enumerate the same names in the same order.
\<close>

primrec struct_eq :: "json \<Rightarrow> json \<Rightarrow> bool" where
  "struct_eq JNull b = (b = JNull)"
| "struct_eq (JBool x) b = (b = JBool x)"
| "struct_eq (JNum i) b = (b = JNum i)"
| "struct_eq (JStr s) b = (b = JStr s)"
| "struct_eq (JArr xs) b =
     (case b of JArr ys \<Rightarrow> list_all2 (\<lambda>f y. f y) (map struct_eq xs) ys | _ \<Rightarrow> False)"
| "struct_eq (JObj ps) b =
     (case b of
        JObj qs \<Rightarrow>
          set (map fst ps) = set (map fst qs) \<and>
          list_all (\<lambda>kf. list_all (\<lambda>kw. fst kw = fst kf \<longrightarrow> snd kf (snd kw)) qs)
            (map (map_prod id struct_eq) ps)
      | _ \<Rightarrow> False)"

primrec same_order :: "json \<Rightarrow> json \<Rightarrow> bool" where
  "same_order JNull b = True"
| "same_order (JBool x) b = True"
| "same_order (JNum i) b = True"
| "same_order (JStr s) b = True"
| "same_order (JArr xs) b =
     (case b of JArr ys \<Rightarrow> list_all2 (\<lambda>f y. f y) (map same_order xs) ys | _ \<Rightarrow> True)"
| "same_order (JObj ps) b =
     (case b of
        JObj qs \<Rightarrow>
          map fst ps = map fst qs \<and>
          list_all2 (\<lambda>kf kw. snd kf (snd kw)) (map (map_prod id same_order) ps) qs
      | _ \<Rightarrow> True)"

text \<open>An object has each property name once, at every level.\<close>

primrec wf_json :: "json \<Rightarrow> bool" where
  "wf_json JNull = True"
| "wf_json (JBool x) = True"
| "wf_json (JNum i) = True"
| "wf_json (JStr s) = True"
| "wf_json (JArr xs) = list_all (\<lambda>b. b) (map wf_json xs)"
| "wf_json (JObj ps) =
     (distinct (map fst ps) \<and> list_all (\<lambda>kb. snd kb) (map (map_prod id wf_json) ps))"

text \<open>
  The cache is a JavaScript \<^verbatim>\<open>Map\<close> from key to \<^verbatim>\<open>{ data, timestamp }\<close>: an association
  list, \<^verbatim>\<open>set\<close> being \<^const>\<open>AList.update\<close> and \<^verbatim>\<open>delete\<close> being \<^const>\<open>AList.delete\<close>.
\<close>

record 'v cache_entry =
  data :: 'v
  timestamp :: int

type_synonym 'v cache = "(string \<times> 'v cache_entry) list"

text \<open>
  \<^verbatim>\<open>clearRequestCache(endpoint = null)\<close>. The test \<^verbatim>\<open>if (endpoint)\<close> is on the truthiness of
  the argument: \<^verbatim>\<open>null\<close> (here \<^const>\<open>None\<close>) and the empty string both take the branch that
  clears the whole cache; otherwise every key starting with the endpoint followed by a
  colon is deleted.
\<close>

definition clearRequestCache :: "string option \<Rightarrow> 'v cache \<Rightarrow> 'v cache" where
  "clearRequestCache endpoint requestCache =
     (case endpoint of
        None \<Rightarrow> []
      | Some e \<Rightarrow>
          if e \<noteq> [] then filter (\<lambda>kv. \<not> startsWith (fst kv) (e @ '':'')) requestCache
          else [])"

section \<open>requestManager.js: traffic tracking\<close>

text \<open>
  One \<^verbatim>\<open>requestTracker.endpoints[endpoint]\<close> object; the object \<^verbatim>\<open>endpoints\<close> is an
  association list in insertion order. Times are \<^verbatim>\<open>Date.now()\<close> in milliseconds.
  Endpoints are assumed not to be names that every JavaScript object inherits
  (such as \<^verbatim>\<open>constructor\<close>), for which \<^verbatim>\<open>this.endpoints[endpoint]\<close> is not an own property.
\<close>

record traffic =
  count :: nat
  timestamps :: "int list"
  isThrottled :: bool
  lastWarning :: int

datatype error = Throttled string | TransportError string

datatype 'v response = Ok 'v | Failed string

datatype 'v settlement = Fulfilled 'v | RejectedWith error

text \<open>
  The options of \<^verbatim>\<open>optimizedRequest\<close> after destructuring with their defaults
  (\<open>req_method\<close> is \<^verbatim>\<open>method\<close>). The
  \<^verbatim>\<open>headers\<close> are left out: they go to \<^verbatim>\<open>fetch\<close> only and are no part of the cache key.
\<close>

record options =
  req_method :: string
  body :: json
  params :: json
  cacheTTL :: int
  bypassCache :: bool
  retryCount :: int
  retryDelay :: int
  priority :: string

definition DEFAULT_CACHE_TTL :: int where
  "DEFAULT_CACHE_TTL = 5 * 60 * 1000"

definition HEALTH_CHECK_TTL :: int where
  "HEALTH_CHECK_TTL = 5 * 60 * 1000"

definition default_options :: options where
  "default_options =
     \<lparr>req_method = ''GET'', body = JNull, params = JObj [], cacheTTL = DEFAULT_CACHE_TTL,
      bypassCache = False, retryCount = 2, retryDelay = 1000, priority = ''normal''\<rparr>"

text \<open>
  A running \<^verbatim>\<open>makeRequest\<close> activation of a request: the closure's \<^verbatim>\<open>cacheKey\<close>,
  \<^verbatim>\<open>method\<close>, \<^verbatim>\<open>retryCount\<close> and \<^verbatim>\<open>retryDelay\<close>, the \<^verbatim>\<open>retryAttempt\<close> of the activation
  that is suspended, and whether it is suspended at \<^verbatim>\<open>await fetch\<close> or at the retry
  delay in its \<^verbatim>\<open>catch\<close> block. Each activation returns the next one's promise, so the
  promise of \<^verbatim>\<open>makeRequest()\<close> settles as the last activation does: the model keeps one
  promise per request, named by a number.
\<close>

record activation =
  act_key :: string
  act_method :: string
  act_retryCount :: int
  act_retryDelay :: int
  act_retryAttempt :: int
  act_inRetryDelay :: bool

text \<open>
  The module's state (\<^verbatim>\<open>requestCache\<close>, \<^verbatim>\<open>pendingRequests\<close>, \<^verbatim>\<open>requestTracker\<close>) and what
  the event loop holds for it: the scheduled un-throttle callbacks with the time they are
  due, the suspended activations, the settled request promises, and the log of
  \<^verbatim>\<open>fetch\<close> invocations (the cache key of the request each was made for).
\<close>

record 'v rm_state =
  requestCache :: "'v cache"
  pendingRequests :: "(string \<times> nat) list"
  endpoints :: "(string \<times> traffic) list"
  lastCleanup :: int
  timers :: "(int \<times> string) list"
  activations :: "(nat \<times> activation) list"
  settled :: "(nat \<times> 'v settlement) list"
  nextPromise :: nat
  fetchLog :: "string list"

text \<open>The state when the module has been loaded at time \<open>t\<close>.\<close>

definition initial_state :: "int \<Rightarrow> 'v rm_state" where
  "initial_state t =
     \<lparr>requestCache = [], pendingRequests = [], endpoints = [], lastCleanup = t, timers = [],
      activations = [], settled = [], nextPromise = 0, fetchLog = []\<rparr>"

definition cleanup :: "int \<Rightarrow> 'v rm_state \<Rightarrow> 'v rm_state" where
  "cleanup now s =
     s\<lparr>endpoints :=
          map (\<lambda>er. (fst er, (snd er)\<lparr>timestamps := filter (\<lambda>time. now - time < 60000) (timestamps (snd er))\<rparr>))
            (endpoints s),
       lastCleanup := now\<rparr>"

definition new_traffic :: traffic where
  "new_traffic = \<lparr>count = 0, timestamps = [], isThrottled = False, lastWarning = 0\<rparr>"

text \<open>
  \<^verbatim>\<open>requestTracker.track(endpoint)\<close>: the returned flag and the new state. Setting the
  throttle schedules the callback that clears it 10 seconds later.
\<close>

definition track :: "int \<Rightarrow> string \<Rightarrow> 'v rm_state \<Rightarrow> bool \<times> 'v rm_state" where
  "track now endpoint s0 =
     (let s1 = (if now - lastCleanup s0 > 60000 then (cleanup now s0)\<lparr>lastCleanup := now\<rparr> else s0);
          r0 = (case map_of (endpoints s1) endpoint of None \<Rightarrow> new_traffic | Some r \<Rightarrow> r);
          r1 = r0\<lparr>timestamps := timestamps r0 @ [now], count := count r0 + 1\<rparr>;
          recentRequests = filter (\<lambda>time. now - time < 1000) (timestamps r1)
      in if length recentRequests > 10 \<and> now - lastWarning r1 > 5000
         then (True,
               s1\<lparr>endpoints := AList.update endpoint (r1\<lparr>isThrottled := True, lastWarning := now\<rparr>) (endpoints s1),
                  timers := timers s1 @ [(now + 10000, endpoint)]\<rparr>)
         else (isThrottled r1, s1\<lparr>endpoints := AList.update endpoint r1 (endpoints s1)\<rparr>))"

text \<open>\<^verbatim>\<open>requestTracker.isThrottled(endpoint)\<close>.\<close>

definition tracker_isThrottled :: "string \<Rightarrow> 'v rm_state \<Rightarrow> bool" where
  "tracker_isThrottled endpoint s =
     (case map_of (endpoints s) endpoint of None \<Rightarrow> False | Some r \<Rightarrow> isThrottled r)"

text \<open>
  The callback of the \<^verbatim>\<open>setTimeout\<close> in \<^verbatim>\<open>track\<close>, and the event loop running the oldest
  scheduled one once it is due.
\<close>

definition unthrottle :: "string \<Rightarrow> 'v rm_state \<Rightarrow> 'v rm_state" where
  "unthrottle endpoint s =
     s\<lparr>endpoints := AList.map_entry endpoint (\<lambda>r. r\<lparr>isThrottled := False\<rparr>) (endpoints s)\<rparr>"

definition run_timer :: "int \<Rightarrow> 'v rm_state \<Rightarrow> 'v rm_state" where
  "run_timer now s =
     (case timers s of
        [] \<Rightarrow> s
      | t # ts \<Rightarrow> if fst t \<le> now then (unthrottle (snd t) s)\<lparr>timers := ts\<rparr> else s)"

section \<open>requestManager.js: optimizedRequest\<close>

definition effectiveCacheTTL :: "string \<Rightarrow> options \<Rightarrow> int" where
  "effectiveCacheTTL endpoint opts =
     (if str_includes endpoint ''/health'' then HEALTH_CHECK_TTL
      else if str_includes endpoint ''/resources'' then 10 * 60 * 1000
      else if cacheTTL opts \<noteq> 0 then cacheTTL opts
      else DEFAULT_CACHE_TTL)"

definition request_key :: "string \<Rightarrow> options \<Rightarrow> string" where
  "request_key endpoint opts = cacheKey endpoint (req_method opts) (params opts) (body opts)"

text \<open>
  What a call has produced when it returns to the event loop: its promise is fulfilled
  with a value, rejected with an error, resolved with the promise of a request
  (\<^verbatim>\<open>return requestPromise\<close> and \<^verbatim>\<open>return pendingRequests.get(cacheKey)\<close>: the caller's
  promise settles as that one does), or the call is suspended in the 2 second pause of
  the throttle gate.
\<close>

datatype 'v reply = Resolved 'v | Rejected error | Adopts nat | Paused

text \<open>
  The \<^verbatim>\<open>finally\<close> block of the activation with the given \<^verbatim>\<open>retryAttempt\<close>.
\<close>

definition finally_cleanup :: "activation \<Rightarrow> 'v rm_state \<Rightarrow> 'v rm_state" where
  "finally_cleanup a s =
     (if act_retryAttempt a = act_retryCount a \<or> act_retryAttempt a = 0
      then s\<lparr>pendingRequests := AList.delete (act_key a) (pendingRequests s)\<rparr>
      else s)"

text \<open>
  Lines 163 to 247: join the pending request of the key, or call \<^verbatim>\<open>makeRequest()\<close>, which
  runs up to its \<^verbatim>\<open>await fetch(url, requestOptions)\<close>, and register its promise. Building
  the URL and the request options is taken not to throw (\<^verbatim>\<open>params\<close> is an object, not
  \<^verbatim>\<open>null\<close>), so that every activation reaches its \<^verbatim>\<open>fetch\<close>. One synchronous stretch of
  code reads the clock as one instant.
\<close>

definition dedupe_or_start :: "string \<Rightarrow> options \<Rightarrow> 'v rm_state \<Rightarrow> 'v reply \<times> 'v rm_state" where
  "dedupe_or_start key opts s =
     (case map_of (pendingRequests s) key of
        Some p \<Rightarrow> (Adopts p, s)
      | None \<Rightarrow>
          (Adopts (nextPromise s),
           s\<lparr>fetchLog := fetchLog s @ [key],
             activations :=
               AList.update (nextPromise s)
                 \<lparr>act_key = key, act_method = req_method opts, act_retryCount = retryCount opts,
                  act_retryDelay = retryDelay opts, act_retryAttempt = 0, act_inRetryDelay = False\<rparr>
                 (activations s),
             pendingRequests := AList.update key (nextPromise s) (pendingRequests s),
             nextPromise := Suc (nextPromise s)\<rparr>))"

text \<open>
  Lines 148 to 247, run at time \<open>now\<close>: the part of \<^verbatim>\<open>optimizedRequest\<close> after the throttle
  gate, which is also where a call continues after the gate's pause.
\<close>

definition optimizedRequest_proceed ::
  "int \<Rightarrow> string \<Rightarrow> options \<Rightarrow> 'v rm_state \<Rightarrow> 'v reply \<times> 'v rm_state" where
  "optimizedRequest_proceed now endpoint opts s0 =
     (let key = request_key endpoint opts;
          s1 = snd (track now endpoint s0)
      in if \<not> bypassCache opts \<and> req_method opts = ''GET'' then
           (case map_of (requestCache s1) key of
              Some cachedData \<Rightarrow>
                if now - timestamp cachedData < effectiveCacheTTL endpoint opts
                then (Resolved (data cachedData), s1)
                else dedupe_or_start key opts
                       (s1\<lparr>requestCache := AList.delete key (requestCache s1)\<rparr>)
            | None \<Rightarrow> dedupe_or_start key opts s1)
         else dedupe_or_start key opts s1)"

text \<open>
  \<^verbatim>\<open>optimizedRequest(endpoint, options)\<close> called at time \<open>now\<close>, up to its first suspension.
\<close>

definition optimizedRequest ::
  "int \<Rightarrow> string \<Rightarrow> options \<Rightarrow> 'v rm_state \<Rightarrow> 'v reply \<times> 'v rm_state" where
  "optimizedRequest now endpoint opts s =
     (if tracker_isThrottled endpoint s \<and> priority opts \<noteq> ''high'' then
        (case map_of (requestCache s) (request_key endpoint opts) of
           Some cachedData \<Rightarrow> (Resolved (data cachedData), s)
         | None \<Rightarrow>
             if priority opts = ''low'' then (Rejected (Throttled endpoint), s)
             else (Paused, s))
      else optimizedRequest_proceed now endpoint opts s)"

text \<open>
  The \<^verbatim>\<open>fetch\<close> of request \<open>p\<close> completes at time \<open>now\<close>. \<^const>\<open>Failed\<close> stands for every way
  the \<^verbatim>\<open>try\<close> block throws (network error, a response that is not ok, a body that does not
  parse). A failure with retries left suspends the activation at its retry delay, inside
  \<^verbatim>\<open>catch\<close>, before its \<^verbatim>\<open>finally\<close>.
\<close>

definition fetch_done :: "int \<Rightarrow> nat \<Rightarrow> 'v response \<Rightarrow> 'v rm_state \<Rightarrow> 'v rm_state" where
  "fetch_done now p resp s =
     (case map_of (activations s) p of
        None \<Rightarrow> s
      | Some a \<Rightarrow>
          if act_inRetryDelay a then s
          else (case resp of
                  Ok v \<Rightarrow>
                    (let s1 = (if act_method a = ''GET''
                               then s\<lparr>requestCache :=
                                        AList.update (act_key a) \<lparr>data = v, timestamp = now\<rparr> (requestCache s)\<rparr>
                               else s);
                         s2 = finally_cleanup a s1
                     in s2\<lparr>activations := AList.delete p (activations s2),
                           settled := AList.update p (Fulfilled v) (settled s2)\<rparr>)
                | Failed e \<Rightarrow>
                    if act_retryAttempt a < act_retryCount a
                    then s\<lparr>activations := AList.update p (a\<lparr>act_inRetryDelay := True\<rparr>) (activations s)\<rparr>
                    else (let s2 = finally_cleanup a s
                          in s2\<lparr>activations := AList.delete p (activations s2),
                                settled := AList.update p (RejectedWith (TransportError e)) (settled s2)\<rparr>)))"

text \<open>
  The retry delay of request \<open>p\<close> has elapsed: \<^verbatim>\<open>return makeRequest(retryAttempt + 1)\<close> calls
  the next activation, which runs up to its \<^verbatim>\<open>fetch\<close>; the \<^verbatim>\<open>finally\<close> block of the
  returning activation runs next, on its own \<^verbatim>\<open>retryAttempt\<close>, since the returned promise
  is not awaited.
\<close>

definition retry_fire :: "nat \<Rightarrow> 'v rm_state \<Rightarrow> 'v rm_state" where
  "retry_fire p s =
     (case map_of (activations s) p of
        None \<Rightarrow> s
      | Some a \<Rightarrow>
          if \<not> act_inRetryDelay a then s
          else finally_cleanup a
                 (s\<lparr>fetchLog := fetchLog s @ [act_key a],
                    activations :=
                      AList.update p
                        (a\<lparr>act_retryAttempt := act_retryAttempt a + 1, act_inRetryDelay := False\<rparr>)
                        (activations s)\<rparr>))"

text \<open>How a caller's promise has settled in a state, if it has.\<close>

definition outcome :: "'v rm_state \<Rightarrow> 'v reply \<Rightarrow> 'v settlement option" where
  "outcome s r =
     (case r of
        Resolved v \<Rightarrow> Some (Fulfilled v)
      | Rejected e \<Rightarrow> Some (RejectedWith e)
      | Adopts p \<Rightarrow> map_of (settled s) p
      | Paused \<Rightarrow> None)"

section \<open>supabase.js: checkSupabaseConnection\<close>

text \<open>
  \<^verbatim>\<open>connectionStatus\<close>; \<^verbatim>\<open>isConnected\<close> is \<^verbatim>\<open>null\<close>, \<^verbatim>\<open>true\<close> or \<^verbatim>\<open>false\<close>. The field
  \<open>probes\<close> is not in the source: it counts the probe runs started (each run issues the
  query on \<^verbatim>\<open>resources\<close> and, when that one decides nothing, the fallback query). The state
  is taken to be written by \<^verbatim>\<open>checkSupabaseConnection\<close> only.
\<close>

record conn_status =
  lastChecked :: int
  isConnected :: "bool option"
  checkInProgress :: bool
  probes :: nat

definition initial_status :: conn_status where
  "initial_status = \<lparr>lastChecked = 0, isConnected = None, checkInProgress = False, probes = 0\<rparr>"

text \<open>
  The \<^verbatim>\<open>error\<close> object of a query result, with the fields the function reads, and what an
  awaited query does: resolve with no error, resolve with an error, or throw.
\<close>

record pg_error =
  code :: string
  status :: "int option"

datatype query_result = NoError | ErrorResult pg_error | Throws

text \<open>
  What the backend answers during one probe run: to the query on \<^verbatim>\<open>resources\<close>, to the
  fallback query, and whether \<^verbatim>\<open>supabase.auth.getSession()\<close> resolves (\<^const>\<open>True\<close>) or
  throws.
\<close>

record probe_env =
  resources_query :: query_result
  dummy_query :: query_result
  getSession_resolves :: bool

datatype check_reply = Done "bool option" | Waiting | Probing

text \<open>
  \<^verbatim>\<open>checkSupabaseConnection(forceCheck)\<close> called at time \<open>now\<close>, up to its first suspension:
  it returns at once, starts polling for the running probe to end, or starts a probe.
\<close>

definition check_enter :: "bool \<Rightarrow> int \<Rightarrow> bool \<Rightarrow> conn_status \<Rightarrow> check_reply \<times> conn_status" where
  "check_enter isBrowser now forceCheck s =
     (if \<not> isBrowser then (Done (Some False), s)
      else if checkInProgress s then (Waiting, s)
      else if \<not> forceCheck \<and> now - lastChecked s < 5 * 60 * 1000 \<and> isConnected s \<noteq> None
      then (Done (isConnected s), s)
      else (Probing, s\<lparr>checkInProgress := True, probes := probes s + 1\<rparr>))"

text \<open>
  One tick of the polling interval of a waiting call: \<^const>\<open>None\<close> while a probe is in
  progress, otherwise the value of \<^verbatim>\<open>connectionStatus.isConnected\<close> the call returns.
\<close>

definition poll :: "conn_status \<Rightarrow> bool option option" where
  "poll s = (if checkInProgress s then None else Some (isConnected s))"

text \<open>
  A terminal branch of the probe: \<^verbatim>\<open>connectionStatus.isConnected = b;
  connectionStatus.lastChecked = now; return b\<close>.
\<close>

definition conclude :: "bool \<Rightarrow> int \<Rightarrow> conn_status \<Rightarrow> bool \<times> conn_status" where
  "conclude b now s = (b, s\<lparr>isConnected := Some b, lastChecked := now\<rparr>)"

text \<open>
  The fallback part of the probe, lines 90 to 137; a query that throws is caught by the
  outer \<^verbatim>\<open>catch\<close>, lines 138 to 142.
\<close>

definition fallback_check :: "int \<Rightarrow> probe_env \<Rightarrow> conn_status \<Rightarrow> bool \<times> conn_status" where
  "fallback_check now env s =
     (case dummy_query env of
        Throws \<Rightarrow> conclude False now s
      | NoError \<Rightarrow> conclude True now s
      | ErrorResult e \<Rightarrow>
          if code e = ''42P01'' then conclude True now s
          else if (status e = Some 404 \<or> code e = ''404'') \<and> getSession_resolves env
          then conclude True now s
          else conclude False now s)"

text \<open>
  The \<^verbatim>\<open>try\<close> block of the probe, lines 56 to 142: the query on \<^verbatim>\<open>resources\<close> decides on
  success and on the error code 42P01; any other error, and an exception (caught by the
  inner \<^verbatim>\<open>catch\<close>), lead to the fallback.
\<close>

definition probe_body :: "int \<Rightarrow> probe_env \<Rightarrow> conn_status \<Rightarrow> bool \<times> conn_status" where
  "probe_body now env s =
     (case resources_query env of
        ErrorResult e \<Rightarrow> if code e = ''42P01'' then conclude True now s else fallback_check now env s
      | NoError \<Rightarrow> conclude True now s
      | Throws \<Rightarrow> fallback_check now env s)"

text \<open>
  The probe started at time \<open>now\<close> runs to its end with the answers \<open>env\<close>; the \<^verbatim>\<open>finally\<close>
  block clears the flag.
\<close>

definition probe_finish :: "int \<Rightarrow> probe_env \<Rightarrow> conn_status \<Rightarrow> bool \<times> conn_status" where
  "probe_finish now env s =
     (fst (probe_body now env s), (snd (probe_body now env s))\<lparr>checkInProgress := False\<rparr>)"



text \<open>
  What happens to \<^verbatim>\<open>connectionStatus\<close> over time: a call is made (in a browser or not, at a
  time, forcing or not), or the running probe, started at the given time, comes to its end
  with the given answers.
\<close>

datatype conn_event = CallMade bool int bool | ProbeEnds int probe_env

fun conn_step :: "conn_event \<Rightarrow> conn_status \<Rightarrow> conn_status" where
  "conn_step (CallMade isBrowser now forceCheck) s = snd (check_enter isBrowser now forceCheck s)"
| "conn_step (ProbeEnds now env) s =
     (if checkInProgress s then snd (probe_finish now env s) else s)"

section \<open>Runs of calls\<close>

text \<open>
  Calls to \<^verbatim>\<open>optimizedRequest\<close> for one endpoint, each with the time it is made at and its
  options, made one after the other with nothing else running in between.
\<close>

fun run_calls :: "string \<Rightarrow> (int \<times> options) list \<Rightarrow> 'v rm_state \<Rightarrow> 'v rm_state" where
  "run_calls endpoint [] s = s"
| "run_calls endpoint (c # cs) s =
     run_calls endpoint cs (snd (optimizedRequest (fst c) endpoint (snd c) s))"

definition last_warning :: "string \<Rightarrow> 'v rm_state \<Rightarrow> int" where
  "last_warning endpoint s =
     (case map_of (endpoints s) endpoint of None \<Rightarrow> 0 | Some r \<Rightarrow> lastWarning r)"

definition timestamps_of :: "string \<Rightarrow> 'v rm_state \<Rightarrow> int list" where
  "timestamps_of endpoint s =
     (case map_of (endpoints s) endpoint of None \<Rightarrow> [] | Some r \<Rightarrow> timestamps r)"

text \<open>The number of tracked requests of an endpoint in the second that starts at \<open>t0\<close>.\<close>

definition window_count :: "int \<Rightarrow> string \<Rightarrow> 'v rm_state \<Rightarrow> nat" where
  "window_count t0 endpoint s =
     length (filter (\<lambda>time. t0 \<le> time \<and> time < t0 + 1000) (timestamps_of endpoint s))"

section \<open>Concrete runs\<close>

text \<open>
  Options and states of runs on the endpoint \<^verbatim>\<open>/a\<close> with numbers as response bodies, from
  the state of a module loaded at time 0.
\<close>

definition low_priority :: options where
  "low_priority = default_options\<lparr>priority := ''low''\<rparr>"

definition high_priority :: options where
  "high_priority = default_options\<lparr>priority := ''high''\<rparr>"

definition post_options :: options where
  "post_options = default_options\<lparr>req_method := ''POST''\<rparr>"

definition bypass_options :: options where
  "bypass_options = default_options\<lparr>bypassCache := True\<rparr>"

text \<open>A first GET at time 100000, whose \<^verbatim>\<open>fetch\<close> is in flight.\<close>

definition first_call :: "nat rm_state" where
  "first_call = snd (optimizedRequest 100000 ''/a'' default_options (initial_state 0))"

text \<open>Its response 1 arrives at 100010 and is cached.\<close>

definition cached_state :: "nat rm_state" where
  "cached_state = fetch_done 100010 0 (Ok 1) first_call"

text \<open>A second GET at 100020 with \<^verbatim>\<open>bypassCache: true\<close>, in flight.\<close>

definition refresh_state :: "nat rm_state" where
  "refresh_state = snd (optimizedRequest 100020 ''/a'' bypass_options cached_state)"

text \<open>Eleven GETs, and eleven POSTs, at time 100000.\<close>

definition get_throttled :: "nat rm_state" where
  "get_throttled = run_calls ''/a'' (replicate 11 (100000, default_options)) (initial_state 0)"

definition post_throttled :: "nat rm_state" where
  "post_throttled = run_calls ''/a'' (replicate 11 (100000, post_options)) (initial_state 0)"

text \<open>Eleven POSTs at time 1000000, long after the response of the GET was cached.\<close>

definition stale_throttled :: "nat rm_state" where
  "stale_throttled = run_calls ''/a'' (replicate 11 (1000000, post_options)) cached_state"

text \<open>Eleven high-priority GETs at time 100000 and eleven more at 106000.\<close>

definition rewarned :: "nat rm_state" where
  "rewarned =
     run_calls ''/a'' (replicate 11 (106000, high_priority))
       (run_calls ''/a'' (replicate 11 (100000, high_priority)) (initial_state 0))"

text \<open>
  The \<^verbatim>\<open>fetch\<close> of the first GET fails at 100010 and its first retry delay has elapsed.
\<close>

definition retry_wait :: "nat rm_state" where
  "retry_wait = fetch_done 100010 0 (Failed ''network'') first_call"

definition retrying :: "nat rm_state" where
  "retrying = retry_fire 0 retry_wait"

text \<open>
  With \<^verbatim>\<open>/a\<close> throttled by the eleven POSTs, the response 1 of the first POST arrives at
  100050, and a twelfth POST of normal priority, made at 100001 and paused by the gate,
  continues at 102001.
\<close>

definition post_resumed :: "nat reply \<times> nat rm_state" where
  "post_resumed =
     optimizedRequest_proceed 102001 ''/a'' post_options (fetch_done 100050 0 (Ok 1) post_throttled)"

text \<open>Answers of the backend to a probe: both queries fail, the second with a 404.\<close>

definition not_found_env :: probe_env where
  "not_found_env =
     \<lparr>resources_query = ErrorResult \<lparr>code = ''PGRST116'', status = Some 406\<rparr>,
      dummy_query = ErrorResult \<lparr>code = ''404'', status = Some 404\<rparr>,
      getSession_resolves = True\<rparr>"

section \<open>Properties of the cache key and of cache invalidation\<close>

lemma struct_eq_same_order_eq:
  "struct_eq a b \<Longrightarrow> same_order a b \<Longrightarrow> a = b"
proof (induction a arbitrary: b)
  case (JArr xs)
  then obtain ys where b: "b = JArr ys" by (cases b) auto
  from JArr.prems b have s: "list_all2 struct_eq xs ys" and o: "list_all2 same_order xs ys"
    by (simp_all add: list_all2_map1)
  have "list_all2 (=) xs ys"
    unfolding list_all2_conv_all_nth
  proof (intro conjI allI impI)
    show "length xs = length ys" using s by (rule list_all2_lengthD)
  next
    fix i assume i: "i < length xs"
    have "struct_eq (xs ! i) (ys ! i)" using s i by (simp add: list_all2_conv_all_nth)
    moreover have "same_order (xs ! i) (ys ! i)" using o i by (simp add: list_all2_conv_all_nth)
    ultimately show "xs ! i = ys ! i" using JArr.IH i by (meson nth_mem)
  qed
  then show ?case using b by (simp add: list.rel_eq)
next
  case (JObj ps)
  then obtain qs where b: "b = JObj qs" by (cases b) auto
  from JObj.prems b have k: "map fst ps = map fst qs"
    and o: "list_all2 (\<lambda>p q. same_order (snd p) (snd q)) ps qs"
    and s: "\<forall>p\<in>set ps. \<forall>q\<in>set qs. fst q = fst p \<longrightarrow> struct_eq (snd p) (snd q)"
    by (simp_all add: list_all2_map1 list_all_iff)
  have "list_all2 (=) ps qs"
    unfolding list_all2_conv_all_nth
  proof (intro conjI allI impI)
    show len: "length ps = length qs" using o by (rule list_all2_lengthD)
    fix i assume i: "i < length ps"
    have f: "fst (ps ! i) = fst (qs ! i)"
      using k i len by (metis nth_map)
    have "struct_eq (snd (ps ! i)) (snd (qs ! i))"
      using s i len f by (metis nth_mem)
    moreover have "same_order (snd (ps ! i)) (snd (qs ! i))"
      using o i by (simp add: list_all2_conv_all_nth)
    moreover have "snd (ps ! i) \<in> Basic_BNFs.snds (ps ! i)"
      by (cases "ps ! i") (simp add: snds.simps)
    ultimately have "snd (ps ! i) = snd (qs ! i)"
      using JObj.IH i by (meson nth_mem)
    with f show "ps ! i = qs ! i" by (simp add: prod_eq_iff)
  qed
  then show ?case using b by (simp add: list.rel_eq)
qed auto

text \<open>
  C6, as amended. Two calls with the same endpoint and method whose \<^verbatim>\<open>params\<close> are
  structurally equal and whose \<^verbatim>\<open>body\<close> values are structurally equal get the identical
  cache key, provided corresponding objects enumerate their properties in the same order.
\<close>

theorem cache_key_same_order:
  assumes "struct_eq params1 params2" and "same_order params1 params2"
    and "struct_eq body1 body2" and "same_order body1 body2"
  shows "cacheKey e m params1 body1 = cacheKey e m params2 body2"
proof -
  have "params1 = params2" using assms(1,2) by (rule struct_eq_same_order_eq)
  moreover have "body1 = body2" using assms(3,4) by (rule struct_eq_same_order_eq)
  ultimately show ?thesis by simp
qed

theorem cache_key_same_order_witness:
  "struct_eq (JObj [(''a'', JNum 1), (''b'', JArr [JNum 2])]) (JObj [(''a'', JNum 1), (''b'', JArr [JNum 2])]) \<and>
   same_order (JObj [(''a'', JNum 1), (''b'', JArr [JNum 2])]) (JObj [(''a'', JNum 1), (''b'', JArr [JNum 2])]) \<and>
   struct_eq JNull JNull \<and> same_order JNull JNull \<and>
   cacheKey ''/a'' ''GET'' (JObj [(''a'', JNum 1), (''b'', JArr [JNum 2])]) JNull =
   cacheKey ''/a'' ''GET'' (JObj [(''a'', JNum 1), (''b'', JArr [JNum 2])]) JNull"
proof -
  have h1: "struct_eq (JObj [(''a'', JNum 1), (''b'', JArr [JNum 2])]) (JObj [(''a'', JNum 1), (''b'', JArr [JNum 2])])"
    by simp
  have h2: "same_order (JObj [(''a'', JNum 1), (''b'', JArr [JNum 2])]) (JObj [(''a'', JNum 1), (''b'', JArr [JNum 2])])"
    by simp
  have h3: "struct_eq JNull JNull" and h4: "same_order JNull JNull" by simp_all
  from cache_key_same_order [OF h1 h2 h3 h4, of "''/a''" "''GET''"] h1 h2 h3 h4
  show ?thesis by blast
qed

text \<open>
  The claim C6 as stated fails: the objects \<^verbatim>\<open>{a: 1, b: 2}\<close> and \<^verbatim>\<open>{b: 2, a: 1}\<close> are equal as
  maps, and the keys of two GETs of \<^verbatim>\<open>/a\<close> with these \<^verbatim>\<open>params\<close> differ.
\<close>

theorem cache_key_order_counterexample:
  "wf_json (JObj [(''a'', JNum 1), (''b'', JNum 2)]) \<and>
   wf_json (JObj [(''b'', JNum 2), (''a'', JNum 1)]) \<and>
   struct_eq (JObj [(''a'', JNum 1), (''b'', JNum 2)]) (JObj [(''b'', JNum 2), (''a'', JNum 1)]) \<and>
   cacheKey ''/a'' ''GET'' (JObj [(''a'', JNum 1), (''b'', JNum 2)]) JNull \<noteq>
   cacheKey ''/a'' ''GET'' (JObj [(''b'', JNum 2), (''a'', JNum 1)]) JNull"
  by (simp add: cacheKey_def generateCacheKey_def request_identity_def quote_def escape_char_def
      insert_commute)

text \<open>
  C7, as amended. \<^verbatim>\<open>clearRequestCache(endpoint)\<close> with a non-empty endpoint removes
  exactly the entries whose key begins with that endpoint followed by a colon, and leaves
  every other entry as it is; \<^verbatim>\<open>clearRequestCache()\<close> removes every entry.
\<close>

theorem clear_cache_scope:
  assumes "e \<noteq> []"
  shows "map_of (clearRequestCache (Some e) c) key =
           (if startsWith key (e @ '':'') then None else map_of c key) \<and>
         clearRequestCache None c = []"
  using assms by (induction c) (auto simp: clearRequestCache_def)

theorem clear_cache_scope_witness:
  "''/b'' \<noteq> [] \<and>
   map_of (clearRequestCache (Some ''/b'')
      [(''/b:{}'', \<lparr>data = (1::nat), timestamp = 5\<rparr>), (''/c:{}'', \<lparr>data = 2, timestamp = 6\<rparr>)]) ''/c:{}'' =
     Some \<lparr>data = 2, timestamp = 6\<rparr> \<and>
   map_of (clearRequestCache (Some ''/b'')
      [(''/b:{}'', \<lparr>data = (1::nat), timestamp = 5\<rparr>), (''/c:{}'', \<lparr>data = 2, timestamp = 6\<rparr>)]) ''/b:{}'' = None"
proof -
  have h: "''/b'' \<noteq> []" by simp
  from clear_cache_scope [OF h, of "[(''/b:{}'', \<lparr>data = (1::nat), timestamp = 5\<rparr>), (''/c:{}'', \<lparr>data = 2, timestamp = 6\<rparr>)]" "''/c:{}''"]
       clear_cache_scope [OF h, of "[(''/b:{}'', \<lparr>data = (1::nat), timestamp = 5\<rparr>), (''/c:{}'', \<lparr>data = 2, timestamp = 6\<rparr>)]" "''/b:{}''"]
  show ?thesis by simp
qed

text \<open>
  The claim C7 as stated fails: the key of a GET of \<^verbatim>\<open>/resources/1\<close> begins with
  \<^verbatim>\<open>/resources\<close>, and \<^verbatim>\<open>clearRequestCache('/resources')\<close> keeps its entry.
\<close>

theorem clear_cache_prefix_counterexample:
  "startsWith (cacheKey ''/resources/1'' ''GET'' (JObj []) JNull) ''/resources'' \<and>
   map_of (clearRequestCache (Some ''/resources'')
             [(cacheKey ''/resources/1'' ''GET'' (JObj []) JNull, \<lparr>data = (7::nat), timestamp = 0\<rparr>)])
     (cacheKey ''/resources/1'' ''GET'' (JObj []) JNull) = Some \<lparr>data = 7, timestamp = 0\<rparr>"
  by (simp add: clearRequestCache_def cacheKey_def generateCacheKey_def request_identity_def
      quote_def escape_char_def)

section \<open>Properties of traffic tracking and of the throttle gate\<close>

lemma cleanup_other [simp]:
  "requestCache (cleanup now s) = requestCache s"
  "pendingRequests (cleanup now s) = pendingRequests s"
  "activations (cleanup now s) = activations s"
  "settled (cleanup now s) = settled s"
  "nextPromise (cleanup now s) = nextPromise s"
  "fetchLog (cleanup now s) = fetchLog s"
  "timers (cleanup now s) = timers s"
  by (simp_all add: cleanup_def)

lemma track_other [simp]:
  "requestCache (snd (track now e s)) = requestCache s"
  "pendingRequests (snd (track now e s)) = pendingRequests s"
  "activations (snd (track now e s)) = activations s"
  "settled (snd (track now e s)) = settled s"
  "nextPromise (snd (track now e s)) = nextPromise s"
  "fetchLog (snd (track now e s)) = fetchLog s"
  by (simp_all add: track_def Let_def)

lemma map_of_cleanup:
  "map_of (endpoints (cleanup now s)) e =
     map_option (\<lambda>r. r\<lparr>timestamps := filter (\<lambda>time. now - time < 60000) (timestamps r)\<rparr>)
       (map_of (endpoints s) e)"
proof -
  have "map_of (map (\<lambda>er. (fst er, f (snd er))) xs) e = map_option f (map_of xs e)"
    for f :: "traffic \<Rightarrow> traffic" and xs
    by (induction xs) auto
  then show ?thesis by (simp add: cleanup_def)
qed

lemma dedupe_keeps [simp]:
  "endpoints (snd (dedupe_or_start key opts s)) = endpoints s"
  "timers (snd (dedupe_or_start key opts s)) = timers s"
  "lastCleanup (snd (dedupe_or_start key opts s)) = lastCleanup s"
  "requestCache (snd (dedupe_or_start key opts s)) = requestCache s"
  by (simp_all add: dedupe_or_start_def split: option.splits)

lemma proceed_traffic:
  "endpoints (snd (optimizedRequest_proceed now e opts s)) = endpoints (snd (track now e s))"
  "timers (snd (optimizedRequest_proceed now e opts s)) = timers (snd (track now e s))"
  "lastCleanup (snd (optimizedRequest_proceed now e opts s)) = lastCleanup (snd (track now e s))"
  by (simp_all add: optimizedRequest_proceed_def Let_def split: option.splits)

lemma track_throttled_mono:
  "tracker_isThrottled e s \<Longrightarrow> tracker_isThrottled e (snd (track now e' s))"
  by (auto simp: tracker_isThrottled_def track_def Let_def map_of_cleanup update_conv' new_traffic_def
      split: option.splits if_splits)

lemma cleanup_window:
  assumes "now < t0 + 1000"
  shows "window_count t0 e (cleanup now s) = window_count t0 e s"
    and "last_warning e (cleanup now s) = last_warning e s"
    and "tracker_isThrottled e (cleanup now s) = tracker_isThrottled e s"
proof -
  have "filter (\<lambda>time. t0 \<le> time \<and> time < t0 + 1000) (filter (\<lambda>time. now - time < 60000) xs)
      = filter (\<lambda>time. t0 \<le> time \<and> time < t0 + 1000) xs" for xs
    using assms by (induction xs) auto
  then show "window_count t0 e (cleanup now s) = window_count t0 e s"
    by (cases "map_of (endpoints s) e") (simp_all add: window_count_def timestamps_of_def map_of_cleanup)
  show "last_warning e (cleanup now s) = last_warning e s"
    by (cases "map_of (endpoints s) e") (simp_all add: last_warning_def map_of_cleanup)
  show "tracker_isThrottled e (cleanup now s) = tracker_isThrottled e s"
    by (cases "map_of (endpoints s) e") (simp_all add: tracker_isThrottled_def map_of_cleanup)
qed

lemma lastCleanup_window [simp]:
  "window_count t0 e (s\<lparr>lastCleanup := x\<rparr>) = window_count t0 e s"
  "last_warning e (s\<lparr>lastCleanup := x\<rparr>) = last_warning e s"
  "tracker_isThrottled e (s\<lparr>lastCleanup := x\<rparr>) = tracker_isThrottled e s"
  by (simp_all add: window_count_def timestamps_of_def last_warning_def tracker_isThrottled_def)

text \<open>
  One tracked request inside the second that starts at \<open>t0\<close>, for an endpoint that has not
  warned in the 5 seconds before \<open>t0\<close>: the endpoint gets throttled, or the count of the
  window grows and the last warning stays; the eleventh request of the window throttles.
\<close>

lemma track_step:
  assumes w: "t0 \<le> now" "now < t0 + 1000"
    and l: "last_warning e s + 5000 < t0"
    and i: "i \<le> window_count t0 e s"
  shows "tracker_isThrottled e (snd (track now e s)) \<or>
         (last_warning e (snd (track now e s)) + 5000 < t0 \<and>
          Suc i \<le> window_count t0 e (snd (track now e s)))"
    and "10 \<le> i \<Longrightarrow> tracker_isThrottled e (snd (track now e s))"
proof -
  define s1 where "s1 = (if now - lastCleanup s > 60000 then (cleanup now s)\<lparr>lastCleanup := now\<rparr> else s)"
  define r0 where "r0 = (case map_of (endpoints s1) e of None \<Rightarrow> new_traffic | Some r \<Rightarrow> r)"
  define r1 where "r1 = r0\<lparr>timestamps := timestamps r0 @ [now], count := count r0 + 1\<rparr>"
  define recent where "recent = filter (\<lambda>time. now - time < 1000) (timestamps r1)"
  have l1: "last_warning e s1 + 5000 < t0" and i1: "i \<le> window_count t0 e s1"
    using l i w by (simp_all add: s1_def cleanup_window)
  have lw: "lastWarning r0 = last_warning e s1"
    by (simp add: r0_def last_warning_def new_traffic_def split: option.splits)
  have ts: "timestamps r0 = timestamps_of e s1"
    by (simp add: r0_def timestamps_of_def new_traffic_def split: option.splits)
  have wc: "length (filter (\<lambda>time. t0 \<le> time \<and> time < t0 + 1000) (timestamps r1)) =
            Suc (window_count t0 e s1)"
    using w by (simp add: r1_def ts window_count_def)
  have "length (filter (\<lambda>time. t0 \<le> time \<and> time < t0 + 1000) (timestamps r1)) \<le> length recent"
  proof -
    have "filter (\<lambda>time. t0 \<le> time \<and> time < t0 + 1000) (timestamps r1)
        = filter (\<lambda>time. t0 \<le> time \<and> time < t0 + 1000) recent"
      unfolding recent_def filter_filter using w
      by (intro filter_cong) auto
    then show ?thesis by (metis length_filter_le)
  qed
  with wc i1 have rec: "Suc i \<le> length recent" by simp
  have tr: "track now e s =
      (if length recent > 10 \<and> now - lastWarning r1 > 5000
       then (True,
             s1\<lparr>endpoints := AList.update e (r1\<lparr>isThrottled := True, lastWarning := now\<rparr>) (endpoints s1),
                timers := timers s1 @ [(now + 10000, e)]\<rparr>)
       else (isThrottled r1, s1\<lparr>endpoints := AList.update e r1 (endpoints s1)\<rparr>))"
    by (simp add: track_def Let_def s1_def r0_def r1_def recent_def)
  have lw1: "now - lastWarning r1 > 5000"
    using lw l1 w by (simp add: r1_def)
  show "tracker_isThrottled e (snd (track now e s)) \<or>
         (last_warning e (snd (track now e s)) + 5000 < t0 \<and>
          Suc i \<le> window_count t0 e (snd (track now e s)))"
  proof (cases "length recent > 10")
    case True
    then show ?thesis using lw1 by (simp add: tr tracker_isThrottled_def update_conv')
  next
    case False
    have "last_warning e (snd (track now e s)) = last_warning e s1"
      using False lw by (simp add: tr last_warning_def update_conv' r1_def)
    moreover have "window_count t0 e (snd (track now e s)) = Suc (window_count t0 e s1)"
      using False wc by (simp add: tr window_count_def timestamps_of_def update_conv')
    ultimately show ?thesis using l1 i1 by simp
  qed
  show "tracker_isThrottled e (snd (track now e s))" if "10 \<le> i"
    using that rec lw1 by (simp add: tr tracker_isThrottled_def update_conv')
qed

lemma call_keeps_throttled:
  "tracker_isThrottled e s \<Longrightarrow> tracker_isThrottled e (snd (optimizedRequest now e opts s))"
  by (auto simp: optimizedRequest_def tracker_isThrottled_def[of e "snd (optimizedRequest_proceed _ _ _ _)"]
        proceed_traffic tracker_isThrottled_def[symmetric] track_throttled_mono split: option.splits)

lemma proceed_pred:
  "tracker_isThrottled e (snd (optimizedRequest_proceed now e' opts s)) =
     tracker_isThrottled e (snd (track now e' s))"
  "last_warning e (snd (optimizedRequest_proceed now e' opts s)) = last_warning e (snd (track now e' s))"
  "window_count t0 e (snd (optimizedRequest_proceed now e' opts s)) =
     window_count t0 e (snd (track now e' s))"
  by (simp_all add: tracker_isThrottled_def last_warning_def window_count_def timestamps_of_def
      proceed_traffic)

lemma call_step:
  assumes w: "t0 \<le> now" "now < t0 + 1000"
    and p: "tracker_isThrottled e s \<or> (last_warning e s + 5000 < t0 \<and> i \<le> window_count t0 e s)"
  shows "tracker_isThrottled e (snd (optimizedRequest now e opts s)) \<or>
         (last_warning e (snd (optimizedRequest now e opts s)) + 5000 < t0 \<and>
          Suc i \<le> window_count t0 e (snd (optimizedRequest now e opts s)))"
    and "10 \<le> i \<Longrightarrow> tracker_isThrottled e (snd (optimizedRequest now e opts s))"
proof -
  show "tracker_isThrottled e (snd (optimizedRequest now e opts s)) \<or>
         (last_warning e (snd (optimizedRequest now e opts s)) + 5000 < t0 \<and>
          Suc i \<le> window_count t0 e (snd (optimizedRequest now e opts s)))"
  proof (cases "tracker_isThrottled e s")
    case True
    then show ?thesis by (simp add: call_keeps_throttled)
  next
    case False
    with p have "last_warning e s + 5000 < t0" "i \<le> window_count t0 e s" by simp_all
    from track_step(1)[OF w this] False show ?thesis
      by (simp add: optimizedRequest_def proceed_pred)
  qed
  show "tracker_isThrottled e (snd (optimizedRequest now e opts s))" if "10 \<le> i"
  proof (cases "tracker_isThrottled e s")
    case True
    then show ?thesis by (simp add: call_keeps_throttled)
  next
    case False
    with p have "last_warning e s + 5000 < t0" "i \<le> window_count t0 e s" by simp_all
    from track_step(2)[OF w this that] False show ?thesis
      by (simp add: optimizedRequest_def proceed_pred)
  qed
qed

lemma run_calls_throttles:
  assumes "\<forall>c\<in>set cs. t0 \<le> fst c \<and> fst c < t0 + 1000"
    and "tracker_isThrottled e s \<or> (last_warning e s + 5000 < t0 \<and> i \<le> window_count t0 e s)"
    and "cs \<noteq> []" and "11 \<le> i + length cs"
  shows "tracker_isThrottled e (run_calls e cs s)"
  using assms
proof (induction cs arbitrary: i s)
  case Nil
  then show ?case by simp
next
  case (Cons c cs)
  let ?s' = "snd (optimizedRequest (fst c) e (snd c) s)"
  have w: "t0 \<le> fst c" "fst c < t0 + 1000" using Cons.prems(1) by simp_all
  have p': "tracker_isThrottled e ?s' \<or>
            (last_warning e ?s' + 5000 < t0 \<and> Suc i \<le> window_count t0 e ?s')"
    by (rule call_step(1)[OF w Cons.prems(2)])
  show ?case
  proof (cases "cs = []")
    case True
    with Cons.prems(4) have "10 \<le> i" by simp
    from call_step(2)[OF w Cons.prems(2) this] True show ?thesis by simp
  next
    case False
    have "tracker_isThrottled e (run_calls e cs ?s')"
      using Cons.prems(1,4) False by (intro Cons.IH[OF _ p']) simp_all
    then show ?thesis by simp
  qed
qed

lemma proceed_not_rejected: "fst (optimizedRequest_proceed now e opts s) \<noteq> Rejected err"
  by (simp add: optimizedRequest_proceed_def dedupe_or_start_def Let_def split: option.splits)

lemma track_appends: "\<exists>ts. timestamps_of e (snd (track now e s)) = ts @ [now]"
  by (simp add: track_def Let_def timestamps_of_def update_conv')

text \<open>
  C4, as amended. After 11 calls to \<^verbatim>\<open>optimizedRequest\<close> for one endpoint inside one
  second, made with no un-throttle callback running in between, the endpoint is marked
  throttled, provided it has not issued a throttle warning in the 5 seconds before that
  second. A call for an endpoint that is throttled rejects with the throttled error if and
  only if its priority is \<^verbatim>\<open>low\<close> and the cache has no entry for its key; if the cache has
  an entry for the key, of any age, a call of any priority other than \<^verbatim>\<open>high\<close> returns the
  cached value at once and changes nothing.
\<close>

theorem burst_throttles_endpoint:
  assumes "length cs = 11"
    and "\<forall>c\<in>set cs. t0 \<le> fst c \<and> fst c < t0 + 1000"
    and "last_warning e s + 5000 < t0"
  shows "tracker_isThrottled e (run_calls e cs s) \<and>
         (tracker_isThrottled e s' \<longrightarrow>
            (fst (optimizedRequest now e opts s') = Rejected (Throttled e)
               \<longleftrightarrow> priority opts = ''low'' \<and> map_of (requestCache s') (request_key e opts) = None) \<and>
            (priority opts \<noteq> ''high'' \<longrightarrow>
               (\<forall>c. map_of (requestCache s') (request_key e opts) = Some c \<longrightarrow>
                    optimizedRequest now e opts s' = (Resolved (data c), s'))))"
proof (intro conjI impI allI)
  show "tracker_isThrottled e (run_calls e cs s)"
    using assms by (intro run_calls_throttles[where i=0 and ?t0.0=t0]) auto
next
  assume "tracker_isThrottled e s'"
  then show "fst (optimizedRequest now e opts s') = Rejected (Throttled e)
               \<longleftrightarrow> priority opts = ''low'' \<and> map_of (requestCache s') (request_key e opts) = None"
    by (auto simp: optimizedRequest_def proceed_not_rejected split: option.splits)
next
  fix c
  assume "tracker_isThrottled e s'" "priority opts \<noteq> ''high''"
    "map_of (requestCache s') (request_key e opts) = Some c"
  then show "optimizedRequest now e opts s' = (Resolved (data c), s')"
    by (simp add: optimizedRequest_def)
qed

theorem burst_throttles_endpoint_witness:
  "tracker_isThrottled ''/a'' get_throttled \<and>
   fst (optimizedRequest 100001 ''/a'' low_priority get_throttled) = Rejected (Throttled ''/a'') \<and>
   fst (optimizedRequest 100001 ''/a'' default_options stale_throttled) = Resolved 1"
proof -
  have h1: "length (replicate 11 (100000::int, default_options)) = 11" by simp
  have h2: "\<forall>c\<in>set (replicate 11 (100000::int, default_options)). 100000 \<le> fst c \<and> fst c < 100000 + 1000"
    by simp
  have h3: "last_warning ''/a'' (initial_state 0 :: nat rm_state) + 5000 < 100000"
    by (simp add: last_warning_def initial_state_def)
  have n: "map_of (requestCache get_throttled) (request_key ''/a'' low_priority) = None"
    by code_simp
  have t: "tracker_isThrottled ''/a'' stale_throttled"
    by code_simp
  have c: "map_of (requestCache stale_throttled) (request_key ''/a'' default_options) =
             Some \<lparr>data = 1, timestamp = 100010\<rparr>"
    by code_simp
  have p: "priority low_priority = ''low''" "priority default_options \<noteq> ''high''"
    by (simp_all add: low_priority_def default_options_def)
  from burst_throttles_endpoint [OF h1 h2 h3, of get_throttled 100001 low_priority] n p
  have a: "tracker_isThrottled ''/a'' get_throttled \<and>
    fst (optimizedRequest 100001 ''/a'' low_priority get_throttled) = Rejected (Throttled ''/a'')"
    by (simp add: get_throttled_def)
  from burst_throttles_endpoint [OF h1 h2 h3, of stale_throttled 100001 default_options] t c p
  have "fst (optimizedRequest 100001 ''/a'' default_options stale_throttled) = Resolved 1"
    by simp
  with a show ?thesis by simp
qed

text \<open>
  The first part of the claim C4 as stated fails. Eleven calls at 100000 throttle \<^verbatim>\<open>/a\<close> and
  schedule the callback due at 110000; eleven high-priority calls at 106000 pass the gate,
  warn again and schedule a second callback; the first callback clears the flag at 110000;
  eleven further calls, all at 110500, are within 5 seconds of the last warning and leave
  the endpoint unthrottled.
\<close>

theorem burst_after_warning_counterexample:
  "timers rewarned = [(110000, ''/a''), (116000, ''/a'')] \<and>
   last_warning ''/a'' rewarned = 106000 \<and>
   \<not> tracker_isThrottled ''/a'' (run_timer 110000 rewarned) \<and>
   \<not> tracker_isThrottled ''/a''
       (run_calls ''/a'' (replicate 11 (110500, default_options)) (run_timer 110000 rewarned))"
  by code_simp

text \<open>
  C5, as amended. The tracking step runs on every call that gets past the throttle gate:
  a call for an endpoint that is not throttled, or with priority \<^verbatim>\<open>high\<close>, leaves the
  traffic records as \<^verbatim>\<open>requestTracker.track\<close> leaves them, the current time appended to the
  endpoint's timestamps, whether the call is then served from the cache, joins a pending
  request or starts one, and so does a throttled call of normal priority when it continues
  after its pause. A call that the gate ends, by returning a cached value or by rejecting
  with the throttled error, changes nothing: it is not tracked.
\<close>

theorem tracking_after_gate:
  "(\<not> tracker_isThrottled e s \<or> priority opts = ''high'' \<longrightarrow>
      endpoints (snd (optimizedRequest now e opts s)) = endpoints (snd (track now e s)) \<and>
      (\<exists>ts. timestamps_of e (snd (optimizedRequest now e opts s)) = ts @ [now])) \<and>
   endpoints (snd (optimizedRequest_proceed now e opts s)) = endpoints (snd (track now e s)) \<and>
   (tracker_isThrottled e s \<and> priority opts \<noteq> ''high''
      \<and> fst (optimizedRequest now e opts s) \<noteq> Paused \<longrightarrow>
      snd (optimizedRequest now e opts s) = s \<and>
      ((\<exists>v. fst (optimizedRequest now e opts s) = Resolved v) \<or>
       fst (optimizedRequest now e opts s) = Rejected (Throttled e)))"
proof (intro conjI impI)
  assume g: "\<not> tracker_isThrottled e s \<or> priority opts = ''high''"
  then have eq: "optimizedRequest now e opts s = optimizedRequest_proceed now e opts s"
    by (auto simp: optimizedRequest_def)
  show "endpoints (snd (optimizedRequest now e opts s)) = endpoints (snd (track now e s))"
    by (simp add: eq proceed_traffic)
  then have "timestamps_of e (snd (optimizedRequest now e opts s)) = timestamps_of e (snd (track now e s))"
    by (simp add: timestamps_of_def)
  then show "\<exists>ts. timestamps_of e (snd (optimizedRequest now e opts s)) = ts @ [now]"
    using track_appends[of e now s] by simp
next
  show "endpoints (snd (optimizedRequest_proceed now e opts s)) = endpoints (snd (track now e s))"
    by (rule proceed_traffic)
next
  assume "tracker_isThrottled e s \<and> priority opts \<noteq> ''high''
      \<and> fst (optimizedRequest now e opts s) \<noteq> Paused"
  then show "snd (optimizedRequest now e opts s) = s"
    by (auto simp: optimizedRequest_def split: option.splits)
next
  assume "tracker_isThrottled e s \<and> priority opts \<noteq> ''high''
      \<and> fst (optimizedRequest now e opts s) \<noteq> Paused"
  then show "(\<exists>v. fst (optimizedRequest now e opts s) = Resolved v) \<or>
       fst (optimizedRequest now e opts s) = Rejected (Throttled e)"
    by (auto simp: optimizedRequest_def split: option.splits if_splits)
qed

theorem tracking_after_gate_witness:
  "timestamps_of ''/a'' (snd (optimizedRequest 100000 ''/a'' default_options (initial_state 0 :: nat rm_state)))
     = [100000] \<and>
   snd (optimizedRequest 100001 ''/a'' low_priority get_throttled) = get_throttled"
proof -
  have g: "\<not> tracker_isThrottled ''/a'' (initial_state 0 :: nat rm_state)"
    by (simp add: tracker_isThrottled_def initial_state_def)
  have t: "tracker_isThrottled ''/a'' get_throttled \<and> priority low_priority \<noteq> ''high''
     \<and> fst (optimizedRequest 100001 ''/a'' low_priority get_throttled) \<noteq> Paused"
    by code_simp
  have tr: "timestamps_of ''/a'' (snd (track 100000 ''/a'' (initial_state 0 :: nat rm_state))) = [100000]"
    by code_simp
  from tracking_after_gate [of "''/a''" "initial_state 0 :: nat rm_state" default_options 100000] g
  have "endpoints (snd (optimizedRequest 100000 ''/a'' default_options (initial_state 0 :: nat rm_state)))
      = endpoints (snd (track 100000 ''/a'' (initial_state 0 :: nat rm_state)))"
    by simp
  then have a: "timestamps_of ''/a'' (snd (optimizedRequest 100000 ''/a'' default_options (initial_state 0 :: nat rm_state)))
     = [100000]"
    using tr by (simp add: timestamps_of_def)
  from tracking_after_gate [of "''/a''" get_throttled low_priority 100001] t
  have "snd (optimizedRequest 100001 ''/a'' low_priority get_throttled) = get_throttled"
    by simp
  with a show ?thesis by simp
qed

text \<open>
  The claim C5 as stated fails: with \<^verbatim>\<open>/a\<close> throttled, a low-priority call at 100001 rejects
  with the throttled error and the timestamps of \<^verbatim>\<open>/a\<close> are the eleven there were; and a
  call served a stale entry by the gate is not tracked either.
\<close>

theorem untracked_throttled_call_counterexample:
  "tracker_isThrottled ''/a'' get_throttled \<and>
   fst (optimizedRequest 100001 ''/a'' low_priority get_throttled) = Rejected (Throttled ''/a'') \<and>
   timestamps_of ''/a'' get_throttled = replicate 11 100000 \<and>
   timestamps_of ''/a'' (snd (optimizedRequest 100001 ''/a'' low_priority get_throttled))
     = replicate 11 100000 \<and>
   fst (optimizedRequest 1000001 ''/a'' default_options stale_throttled) = Resolved 1 \<and>
   timestamps_of ''/a'' (snd (optimizedRequest 1000001 ''/a'' default_options stale_throttled))
     = timestamps_of ''/a'' stale_throttled"
  by code_simp

section \<open>Properties of the cache lookup and of deduplication\<close>

lemma finally_cleanup_keeps [simp]:
  "requestCache (finally_cleanup a s) = requestCache s"
  "fetchLog (finally_cleanup a s) = fetchLog s"
  "activations (finally_cleanup a s) = activations s"
  "settled (finally_cleanup a s) = settled s"
  by (simp_all add: finally_cleanup_def)

lemma dedupe_joins:
  "map_of (pendingRequests s) key = Some p \<Longrightarrow> dedupe_or_start key opts s = (Adopts p, s)"
  by (simp add: dedupe_or_start_def)

lemma dedupe_starts:
  assumes "map_of (pendingRequests s) key = None"
  shows "fst (dedupe_or_start key opts s) = Adopts (nextPromise s)"
    and "fetchLog (snd (dedupe_or_start key opts s)) = fetchLog s @ [key]"
    and "map_of (pendingRequests (snd (dedupe_or_start key opts s))) key = Some (nextPromise s)"
    and "map_of (activations (snd (dedupe_or_start key opts s))) (nextPromise s) =
           Some \<lparr>act_key = key, act_method = req_method opts, act_retryCount = retryCount opts,
                 act_retryDelay = retryDelay opts, act_retryAttempt = 0, act_inRetryDelay = False\<rparr>"
  using assms by (simp_all add: dedupe_or_start_def update_conv')

text \<open>
  After the gate a call is served from a fresh cache entry, or goes on to the pending map in
  a state that differs from the tracked one by the deletion of the expired entry at most.
\<close>

lemma proceed_cases:
  obtains (hit) c where "\<not> bypassCache opts" "req_method opts = ''GET''"
      "map_of (requestCache s) (request_key e opts) = Some c"
      "now - timestamp c < effectiveCacheTTL e opts"
      "optimizedRequest_proceed now e opts s = (Resolved (data c), snd (track now e s))"
  | (expired) c where "\<not> bypassCache opts" "req_method opts = ''GET''"
      "map_of (requestCache s) (request_key e opts) = Some c"
      "\<not> now - timestamp c < effectiveCacheTTL e opts"
      "optimizedRequest_proceed now e opts s =
         dedupe_or_start (request_key e opts) opts
           ((snd (track now e s))\<lparr>requestCache := AList.delete (request_key e opts) (requestCache s)\<rparr>)"
  | (miss) "bypassCache opts \<or> req_method opts \<noteq> ''GET'' \<or>
            map_of (requestCache s) (request_key e opts) = None"
      "optimizedRequest_proceed now e opts s = dedupe_or_start (request_key e opts) opts (snd (track now e s))"
proof (cases "\<not> bypassCache opts \<and> req_method opts = ''GET''")
  case False
  then show ?thesis by (intro miss) (auto simp: optimizedRequest_proceed_def Let_def)
next
  case True
  show ?thesis
  proof (cases "map_of (requestCache s) (request_key e opts)")
    case None
    with True show ?thesis by (intro miss) (simp_all add: optimizedRequest_proceed_def Let_def)
  next
    case (Some c)
    show ?thesis
    proof (cases "now - timestamp c < effectiveCacheTTL e opts")
      case True
      with \<open>\<not> bypassCache opts \<and> req_method opts = ''GET''\<close> Some show ?thesis
        by (intro hit[of c]) (simp_all add: optimizedRequest_proceed_def Let_def)
    next
      case False
      with \<open>\<not> bypassCache opts \<and> req_method opts = ''GET''\<close> Some show ?thesis
        by (intro expired[of c]) (simp_all add: optimizedRequest_proceed_def Let_def)
    qed
  qed
qed

lemma proceed_joins:
  assumes p: "map_of (pendingRequests s) (request_key e opts) = Some p"
    and nf: "bypassCache opts \<or> req_method opts \<noteq> ''GET'' \<or>
             (\<forall>c. map_of (requestCache s) (request_key e opts) = Some c \<longrightarrow>
                  \<not> now - timestamp c < effectiveCacheTTL e opts)"
  shows "fst (optimizedRequest_proceed now e opts s) = Adopts p"
    and "fetchLog (snd (optimizedRequest_proceed now e opts s)) = fetchLog s"
    and "pendingRequests (snd (optimizedRequest_proceed now e opts s)) = pendingRequests s"
    and "req_method opts \<noteq> ''GET'' \<Longrightarrow>
           requestCache (snd (optimizedRequest_proceed now e opts s)) = requestCache s"
proof -
  show "fst (optimizedRequest_proceed now e opts s) = Adopts p"
    using p nf by (cases rule: proceed_cases[of opts s e now]) (simp_all add: dedupe_joins)
  show "fetchLog (snd (optimizedRequest_proceed now e opts s)) = fetchLog s"
    using p nf by (cases rule: proceed_cases[of opts s e now]) (simp_all add: dedupe_joins)
  show "pendingRequests (snd (optimizedRequest_proceed now e opts s)) = pendingRequests s"
    using p nf by (cases rule: proceed_cases[of opts s e now]) (simp_all add: dedupe_joins)
  show "requestCache (snd (optimizedRequest_proceed now e opts s)) = requestCache s"
    if "req_method opts \<noteq> ''GET''"
    using p nf that by (cases rule: proceed_cases[of opts s e now]) (simp_all add: dedupe_joins)
qed

text \<open>A call that invokes the transport registers the promise it returns.\<close>

lemma call_starts:
  assumes c: "optimizedRequest now e opts s0 = (r1, s1)" and f: "fetchLog s1 \<noteq> fetchLog s0"
  shows "r1 = Adopts (nextPromise s0)"
    and "map_of (pendingRequests s1) (request_key e opts) = Some (nextPromise s0)"
    and "fetchLog s1 = fetchLog s0 @ [request_key e opts]"
proof -
  have pr: "optimizedRequest_proceed now e opts s0 = (r1, s1)"
    using c f by (auto simp: optimizedRequest_def split: if_splits option.splits)
  have "r1 = Adopts (nextPromise s0) \<and>
        map_of (pendingRequests s1) (request_key e opts) = Some (nextPromise s0) \<and>
        fetchLog s1 = fetchLog s0 @ [request_key e opts]"
  proof (cases rule: proceed_cases[of opts s0 e now])
    case (hit c)
    with pr f show ?thesis by auto
  next
    case (expired c)
    let ?s = "(snd (track now e s0))\<lparr>requestCache := AList.delete (request_key e opts) (requestCache s0)\<rparr>"
    have n: "map_of (pendingRequests ?s) (request_key e opts) = None"
    proof (rule ccontr)
      assume "map_of (pendingRequests ?s) (request_key e opts) \<noteq> None"
      then obtain p where "map_of (pendingRequests ?s) (request_key e opts) = Some p" by auto
      with expired(5) pr f show False by (simp add: dedupe_joins)
    qed
    have d: "dedupe_or_start (request_key e opts) opts ?s = (r1, s1)"
      using expired(5) pr by simp
    from dedupe_starts(1-3)[OF n, of opts] show ?thesis unfolding d by simp
  next
    case miss
    let ?s = "snd (track now e s0)"
    have n: "map_of (pendingRequests ?s) (request_key e opts) = None"
    proof (rule ccontr)
      assume "map_of (pendingRequests ?s) (request_key e opts) \<noteq> None"
      then obtain p where "map_of (pendingRequests ?s) (request_key e opts) = Some p" by auto
      with miss(2) pr f show False by (simp add: dedupe_joins)
    qed
    have d: "dedupe_or_start (request_key e opts) opts ?s = (r1, s1)"
      using miss(2) pr by simp
    from dedupe_starts(1-3)[OF n, of opts] show ?thesis unfolding d by simp
  qed
  then show "r1 = Adopts (nextPromise s0)"
    and "map_of (pendingRequests s1) (request_key e opts) = Some (nextPromise s0)"
    and "fetchLog s1 = fetchLog s0 @ [request_key e opts]" by simp_all
qed

lemma fetch_done_not_get:
  "map_of (activations s) p = Some a \<Longrightarrow> act_method a \<noteq> ''GET''
     \<Longrightarrow> requestCache (fetch_done now p resp s) = requestCache s"
  by (cases resp) (simp_all add: fetch_done_def Let_def)

lemma fetch_done_get:
  "map_of (activations s) p = Some a \<Longrightarrow> act_method a = ''GET'' \<Longrightarrow> \<not> act_inRetryDelay a
     \<Longrightarrow> map_of (requestCache (fetch_done now p (Ok v) s)) (act_key a) =
           Some \<lparr>data = v, timestamp = now\<rparr>"
  by (simp add: fetch_done_def Let_def update_conv')

text \<open>
  C1, as amended. Let a first call start a request (it invokes the transport), and let a
  second call with the same cache key be made in a state where the promise of that request
  is still registered as pending. If the second call is not stopped by the throttle gate
  (the endpoint is not throttled, or its priority is \<^verbatim>\<open>high\<close>) and is not served from a
  fresh cache entry (it bypasses the cache, or is no GET, or the key has no fresh entry),
  then it invokes no transport and returns the very promise the first call returned: one
  transport invocation was made for the two, and both callers settle with the same value
  or the same rejection.
\<close>

theorem dedup_joins_pending:
  assumes first: "optimizedRequest now1 e opts1 s0 = (r1, s1)"
    and started: "fetchLog s1 \<noteq> fetchLog s0"
    and same_key: "request_key e opts2 = request_key e opts1"
    and registered: "map_of (pendingRequests s) (request_key e opts1) =
                       map_of (pendingRequests s1) (request_key e opts1)"
    and gate: "\<not> tracker_isThrottled e s \<or> priority opts2 = ''high''"
    and no_fresh: "bypassCache opts2 \<or> req_method opts2 \<noteq> ''GET'' \<or>
             (\<forall>c. map_of (requestCache s) (request_key e opts2) = Some c \<longrightarrow>
                  \<not> now2 - timestamp c < effectiveCacheTTL e opts2)"
  shows "fetchLog s1 = fetchLog s0 @ [request_key e opts1] \<and>
         fst (optimizedRequest now2 e opts2 s) = r1 \<and>
         fetchLog (snd (optimizedRequest now2 e opts2 s)) = fetchLog s \<and>
         pendingRequests (snd (optimizedRequest now2 e opts2 s)) = pendingRequests s \<and>
         outcome s' (fst (optimizedRequest now2 e opts2 s)) = outcome s' r1"
proof -
  note st = call_starts[OF first started]
  have p: "map_of (pendingRequests s) (request_key e opts2) = Some (nextPromise s0)"
    using registered st(2) same_key by simp
  have eq: "optimizedRequest now2 e opts2 s = optimizedRequest_proceed now2 e opts2 s"
    using gate by (auto simp: optimizedRequest_def)
  from proceed_joins(1-3)[OF p no_fresh] st show ?thesis by (simp add: eq)
qed

theorem dedup_joins_pending_witness:
  "fetchLog first_call = [request_key ''/a'' default_options] \<and>
   fst (optimizedRequest 100005 ''/a'' low_priority first_call) = Adopts 0 \<and>
   fetchLog (snd (optimizedRequest 100005 ''/a'' low_priority first_call)) = fetchLog first_call"
proof -
  have first: "optimizedRequest 100000 ''/a'' default_options (initial_state 0 :: nat rm_state)
                 = (Adopts 0, first_call)"
    by code_simp
  have started: "fetchLog first_call \<noteq> fetchLog (initial_state 0 :: nat rm_state)"
    by code_simp
  have same_key: "request_key ''/a'' low_priority = request_key ''/a'' default_options"
    by (simp add: request_key_def low_priority_def)
  have gate: "\<not> tracker_isThrottled ''/a'' first_call \<or> priority low_priority = ''high''"
    by code_simp
  have no_fresh: "bypassCache low_priority \<or> req_method low_priority \<noteq> ''GET'' \<or>
             (\<forall>c. map_of (requestCache first_call) (request_key ''/a'' low_priority) = Some c \<longrightarrow>
                  \<not> 100005 - timestamp c < effectiveCacheTTL ''/a'' low_priority)"
  proof -
    have "map_of (requestCache first_call) (request_key ''/a'' low_priority) = None"
      by code_simp
    then show ?thesis by simp
  qed
  have i: "fetchLog (initial_state 0 :: nat rm_state) = []"
    by (simp add: initial_state_def)
  from dedup_joins_pending [OF first started same_key refl gate no_fresh] i
  show ?thesis by simp
qed

text \<open>
  The claim C1 as stated fails. The response 1 of a GET of \<^verbatim>\<open>/a\<close> is cached at 100010; a
  GET with \<^verbatim>\<open>bypassCache: true\<close> at 100020 starts request 1 and registers it; a GET with
  the same key and without the bypass at 100030, while request 1 is registered, is served
  the cached 1; request 1 then resolves with 2.
\<close>

theorem dedup_same_result_counterexample:
  "request_key ''/a'' bypass_options = request_key ''/a'' default_options \<and>
   fst (optimizedRequest 100020 ''/a'' bypass_options cached_state) = Adopts 1 \<and>
   map_of (pendingRequests refresh_state) (request_key ''/a'' default_options) = Some 1 \<and>
   fst (optimizedRequest 100030 ''/a'' default_options refresh_state) = Resolved 1 \<and>
   outcome (fetch_done 100040 1 (Ok 2) (snd (optimizedRequest 100030 ''/a'' default_options refresh_state)))
     (Adopts 1) = Some (Fulfilled 2) \<and>
   outcome (fetch_done 100040 1 (Ok 2) (snd (optimizedRequest 100030 ''/a'' default_options refresh_state)))
     (Resolved 1) = Some (Fulfilled 1)"
  by code_simp

text \<open>
  C10, as amended. Deduplication is not restricted to GET: for every method, a call whose
  cache key has a promise registered as pending, that is not stopped by the throttle gate
  (the endpoint is not throttled, or its priority is \<^verbatim>\<open>high\<close>) and, if it is a GET, is not
  served from a fresh cache entry, invokes no transport and returns the registered promise,
  so both callers observe the same outcome. A call that is no GET leaves the cache as it
  is, and so does the response of a request that is no GET.
\<close>

theorem dedup_any_method:
  assumes pending: "map_of (pendingRequests s) (request_key e opts) = Some p"
    and gate: "\<not> tracker_isThrottled e s \<or> priority opts = ''high''"
    and no_fresh: "req_method opts = ''GET'' \<longrightarrow> bypassCache opts \<or>
             (\<forall>c. map_of (requestCache s) (request_key e opts) = Some c \<longrightarrow>
                  \<not> now - timestamp c < effectiveCacheTTL e opts)"
  shows "fst (optimizedRequest now e opts s) = Adopts p \<and>
         fetchLog (snd (optimizedRequest now e opts s)) = fetchLog s \<and>
         (req_method opts \<noteq> ''GET'' \<longrightarrow>
            requestCache (snd (optimizedRequest now e opts s)) = requestCache s) \<and>
         (\<forall>a. map_of (activations s') q = Some a \<longrightarrow> act_method a \<noteq> ''GET'' \<longrightarrow>
              requestCache (fetch_done t q resp s') = requestCache s')"
proof -
  have eq: "optimizedRequest now e opts s = optimizedRequest_proceed now e opts s"
    using gate by (auto simp: optimizedRequest_def)
  have nf: "bypassCache opts \<or> req_method opts \<noteq> ''GET'' \<or>
             (\<forall>c. map_of (requestCache s) (request_key e opts) = Some c \<longrightarrow>
                  \<not> now - timestamp c < effectiveCacheTTL e opts)"
    using no_fresh by blast
  from proceed_joins[OF pending nf] show ?thesis
    by (simp add: eq fetch_done_not_get)
qed

theorem dedup_any_method_witness:
  "fst (optimizedRequest 100005 ''/a'' post_options (run_calls ''/a'' [(100000, post_options)] (initial_state 0 :: nat rm_state)))
     = Adopts 0 \<and>
   fetchLog (snd (optimizedRequest 100005 ''/a'' post_options (run_calls ''/a'' [(100000, post_options)] (initial_state 0 :: nat rm_state))))
     = [request_key ''/a'' post_options] \<and>
   requestCache (fetch_done 100050 0 (Ok 1) (run_calls ''/a'' [(100000, post_options)] (initial_state 0 :: nat rm_state)))
     = []"
proof -
  let ?s = "run_calls ''/a'' [(100000, post_options)] (initial_state 0 :: nat rm_state)"
  have pending: "map_of (pendingRequests ?s) (request_key ''/a'' post_options) = Some 0"
    by code_simp
  have gate: "\<not> tracker_isThrottled ''/a'' ?s \<or> priority post_options = ''high''"
    by code_simp
  have no_fresh: "req_method post_options = ''GET'' \<longrightarrow> bypassCache post_options \<or>
             (\<forall>c. map_of (requestCache ?s) (request_key ''/a'' post_options) = Some c \<longrightarrow>
                  \<not> 100005 - timestamp c < effectiveCacheTTL ''/a'' post_options)"
    by (simp add: post_options_def default_options_def)
  have a: "map_of (activations ?s) 0 =
     Some \<lparr>act_key = request_key ''/a'' post_options, act_method = ''POST'', act_retryCount = 2,
           act_retryDelay = 1000, act_retryAttempt = 0, act_inRetryDelay = False\<rparr>"
    by code_simp
  have f: "fetchLog ?s = [request_key ''/a'' post_options]" and c: "requestCache ?s = []"
    by code_simp+
  from dedup_any_method [OF pending gate no_fresh, where s' = ?s and q = 0 and t = 100050 and resp = "Ok 1"] a f c
  show ?thesis by simp
qed

text \<open>
  The claim C10 as stated fails. With \<^verbatim>\<open>/a\<close> throttled and the first POST registered as
  request 0, a low-priority POST with the same key rejects at once with the throttled
  error, and a POST of normal priority is paused by the gate; the first POST resolves with
  1 meanwhile and is not cached, so the paused call starts request 1 when it continues: a
  second transport invocation, whose response 2 is what that caller gets.
\<close>

theorem dedup_post_counterexample:
  "map_of (pendingRequests post_throttled) (request_key ''/a'' post_options) = Some 0 \<and>
   fetchLog post_throttled = [request_key ''/a'' post_options] \<and>
   fst (optimizedRequest 100001 ''/a'' (post_options\<lparr>priority := ''low''\<rparr>) post_throttled)
     = Rejected (Throttled ''/a'') \<and>
   optimizedRequest 100001 ''/a'' post_options post_throttled = (Paused, post_throttled) \<and>
   fst post_resumed = Adopts 1 \<and>
   fetchLog (snd post_resumed) = [request_key ''/a'' post_options, request_key ''/a'' post_options] \<and>
   outcome (fetch_done 102050 1 (Ok 2) (snd post_resumed)) (Adopts 0) = Some (Fulfilled 1) \<and>
   outcome (fetch_done 102050 1 (Ok 2) (snd post_resumed)) (Adopts 1) = Some (Fulfilled 2)"
  by code_simp

text \<open>
  C3, as amended. For a GET with \<^verbatim>\<open>bypassCache\<close> false whose key has a cache entry: if the
  age of the entry is less than the effective TTL, the cached value is returned and the
  transport is not invoked. If the age is at least the effective TTL and the call is not
  stopped by the throttle gate (the endpoint is not throttled, or the priority is
  \<^verbatim>\<open>high\<close>), the entry is deleted at that lookup; the call then joins the pending request
  of the key if there is one, and otherwise invokes the transport for a new GET request.
  The successful response of a GET request is stored in the cache under its key with the
  time of its arrival.
\<close>

theorem cache_lookup:
  assumes "req_method opts = ''GET''" and "\<not> bypassCache opts"
    and "map_of (requestCache s) (request_key e opts) = Some c"
  shows "(now - timestamp c < effectiveCacheTTL e opts \<longrightarrow>
            fst (optimizedRequest now e opts s) = Resolved (data c) \<and>
            fetchLog (snd (optimizedRequest now e opts s)) = fetchLog s \<and>
            requestCache (snd (optimizedRequest now e opts s)) = requestCache s) \<and>
         (\<not> now - timestamp c < effectiveCacheTTL e opts \<and>
          (\<not> tracker_isThrottled e s \<or> priority opts = ''high'') \<longrightarrow>
            map_of (requestCache (snd (optimizedRequest now e opts s))) (request_key e opts) = None \<and>
            (map_of (pendingRequests s) (request_key e opts) = None \<longrightarrow>
               fst (optimizedRequest now e opts s) = Adopts (nextPromise s) \<and>
               fetchLog (snd (optimizedRequest now e opts s)) = fetchLog s @ [request_key e opts] \<and>
               map_of (activations (snd (optimizedRequest now e opts s))) (nextPromise s) =
                 Some \<lparr>act_key = request_key e opts, act_method = ''GET'',
                       act_retryCount = retryCount opts, act_retryDelay = retryDelay opts,
                       act_retryAttempt = 0, act_inRetryDelay = False\<rparr>) \<and>
            (\<forall>p. map_of (pendingRequests s) (request_key e opts) = Some p \<longrightarrow>
               fst (optimizedRequest now e opts s) = Adopts p \<and>
               fetchLog (snd (optimizedRequest now e opts s)) = fetchLog s)) \<and>
         (\<forall>a. map_of (activations s') q = Some a \<and> act_method a = ''GET'' \<and> \<not> act_inRetryDelay a \<longrightarrow>
              map_of (requestCache (fetch_done t q (Ok v) s')) (act_key a) =
                Some \<lparr>data = v, timestamp = t\<rparr>)"
proof (intro conjI impI allI)
  assume fresh: "now - timestamp c < effectiveCacheTTL e opts"
  have pr: "optimizedRequest_proceed now e opts s = (Resolved (data c), snd (track now e s))"
    using assms fresh by (simp add: optimizedRequest_proceed_def Let_def)
  have r: "optimizedRequest now e opts s = (Resolved (data c), s) \<or>
           optimizedRequest now e opts s = (Resolved (data c), snd (track now e s))"
    using assms pr by (simp add: optimizedRequest_def)
  from r show "fst (optimizedRequest now e opts s) = Resolved (data c)" by auto
  from r show "fetchLog (snd (optimizedRequest now e opts s)) = fetchLog s" by auto
  from r show "requestCache (snd (optimizedRequest now e opts s)) = requestCache s" by auto
next
  assume ex: "\<not> now - timestamp c < effectiveCacheTTL e opts \<and>
          (\<not> tracker_isThrottled e s \<or> priority opts = ''high'')"
  let ?s = "(snd (track now e s))\<lparr>requestCache := AList.delete (request_key e opts) (requestCache s)\<rparr>"
  have eq: "optimizedRequest now e opts s = dedupe_or_start (request_key e opts) opts ?s"
    using assms ex by (auto simp: optimizedRequest_def optimizedRequest_proceed_def Let_def)
  show "map_of (requestCache (snd (optimizedRequest now e opts s))) (request_key e opts) = None"
    by (simp add: eq delete_conv')
  {
    assume n: "map_of (pendingRequests s) (request_key e opts) = None"
    then have n': "map_of (pendingRequests ?s) (request_key e opts) = None" by simp
    from dedupe_starts[OF n', of opts]
    show "fst (optimizedRequest now e opts s) = Adopts (nextPromise s)"
      and "fetchLog (snd (optimizedRequest now e opts s)) = fetchLog s @ [request_key e opts]"
      and "map_of (activations (snd (optimizedRequest now e opts s))) (nextPromise s) =
                 Some \<lparr>act_key = request_key e opts, act_method = ''GET'',
                       act_retryCount = retryCount opts, act_retryDelay = retryDelay opts,
                       act_retryAttempt = 0, act_inRetryDelay = False\<rparr>"
      using assms(1) by (simp_all add: eq)
  }
  {
    fix p assume "map_of (pendingRequests s) (request_key e opts) = Some p"
    then have p': "map_of (pendingRequests ?s) (request_key e opts) = Some p" by simp
    show "fst (optimizedRequest now e opts s) = Adopts p"
      and "fetchLog (snd (optimizedRequest now e opts s)) = fetchLog s"
      by (simp_all add: eq dedupe_joins[OF p'])
  }
next
  fix a
  assume "map_of (activations s') q = Some a \<and> act_method a = ''GET'' \<and> \<not> act_inRetryDelay a"
  then show "map_of (requestCache (fetch_done t q (Ok v) s')) (act_key a) =
                Some \<lparr>data = v, timestamp = t\<rparr>"
    by (simp add: fetch_done_get)
qed

theorem cache_lookup_witness:
  "fst (optimizedRequest 100020 ''/a'' default_options cached_state) = Resolved 1 \<and>
   fetchLog (snd (optimizedRequest 100020 ''/a'' default_options cached_state)) = fetchLog cached_state \<and>
   map_of (requestCache (snd (optimizedRequest 1000000 ''/a'' default_options cached_state)))
     (request_key ''/a'' default_options) = None \<and>
   fetchLog (snd (optimizedRequest 1000000 ''/a'' default_options cached_state)) =
     fetchLog cached_state @ [request_key ''/a'' default_options] \<and>
   map_of (requestCache (fetch_done 100010 0 (Ok 1) first_call)) (request_key ''/a'' default_options) =
     Some \<lparr>data = 1, timestamp = 100010\<rparr>"
proof -
  have h1: "req_method default_options = ''GET''" and h2: "\<not> bypassCache default_options"
    by (simp_all add: default_options_def)
  have h3: "map_of (requestCache cached_state) (request_key ''/a'' default_options) =
              Some \<lparr>data = 1, timestamp = 100010\<rparr>"
    by code_simp
  have ttl: "effectiveCacheTTL ''/a'' default_options = 300000"
    by code_simp
  have g: "\<not> tracker_isThrottled ''/a'' cached_state"
    by code_simp
  have n: "map_of (pendingRequests cached_state) (request_key ''/a'' default_options) = None"
    by code_simp
  have a: "map_of (activations first_call) 0 =
     Some \<lparr>act_key = request_key ''/a'' default_options, act_method = ''GET'', act_retryCount = 2,
           act_retryDelay = 1000, act_retryAttempt = 0, act_inRetryDelay = False\<rparr>"
    by code_simp
  from cache_lookup [OF h1 h2 h3, where now = 100020 and s' = first_call and q = 0 and t = 100010 and v = 1]
       ttl a
  have fresh: "fst (optimizedRequest 100020 ''/a'' default_options cached_state) = Resolved 1 \<and>
     fetchLog (snd (optimizedRequest 100020 ''/a'' default_options cached_state)) = fetchLog cached_state \<and>
     map_of (requestCache (fetch_done 100010 0 (Ok 1) first_call)) (request_key ''/a'' default_options) =
       Some \<lparr>data = 1, timestamp = 100010\<rparr>"
    by simp
  from cache_lookup [OF h1 h2 h3, where now = 1000000 and s' = first_call and q = 0 and t = 100010 and v = 1]
       ttl g n
  have "map_of (requestCache (snd (optimizedRequest 1000000 ''/a'' default_options cached_state)))
     (request_key ''/a'' default_options) = None \<and>
   fetchLog (snd (optimizedRequest 1000000 ''/a'' default_options cached_state)) =
     fetchLog cached_state @ [request_key ''/a'' default_options]"
    by simp
  with fresh show ?thesis by simp
qed

text \<open>
  The claim C3 as stated fails. The entry cached at 100010 for the GET of \<^verbatim>\<open>/a\<close> has
  expired at 1000001, and the endpoint is throttled by eleven POSTs: the GET with
  \<^verbatim>\<open>bypassCache\<close> false is served the expired entry by the throttle gate, the entry stays
  in the cache and the transport is not invoked (the state is unchanged).
\<close>

theorem stale_entry_kept_counterexample:
  "req_method default_options = ''GET'' \<and> \<not> bypassCache default_options \<and>
   tracker_isThrottled ''/a'' stale_throttled \<and>
   map_of (requestCache stale_throttled) (request_key ''/a'' default_options) =
     Some \<lparr>data = 1, timestamp = 100010\<rparr> \<and>
   \<not> 1000001 - 100010 < effectiveCacheTTL ''/a'' default_options \<and>
   optimizedRequest 1000001 ''/a'' default_options stale_throttled = (Resolved 1, stale_throttled)"
  by code_simp

text \<open>
  C2 fails on the code. A GET of \<^verbatim>\<open>/a\<close> with the default \<^verbatim>\<open>retryCount\<close> 2 is made at 100000
  and its \<^verbatim>\<open>fetch\<close> fails at 100010. During the retry delay request 0 is still registered.
  When the delay has elapsed the \<^verbatim>\<open>finally\<close> block of the first activation deletes the
  entry, although the request is in flight in its second attempt and has not settled. An
  identical call at 101020 does not join it: it starts request 1, a third transport
  invocation.
\<close>

theorem pending_entry_removed_during_retry:
  "map_of (pendingRequests retry_wait) (request_key ''/a'' default_options) = Some 0 \<and>
   map_of (pendingRequests retrying) (request_key ''/a'' default_options) = None \<and>
   map_of (settled retrying) 0 = None \<and>
   map_of (activations retrying) 0 =
     Some \<lparr>act_key = request_key ''/a'' default_options, act_method = ''GET'', act_retryCount = 2,
           act_retryDelay = 1000, act_retryAttempt = 1, act_inRetryDelay = False\<rparr> \<and>
   fst (optimizedRequest 101020 ''/a'' default_options retrying) = Adopts 1 \<and>
   fetchLog (snd (optimizedRequest 101020 ''/a'' default_options retrying)) =
     [request_key ''/a'' default_options, request_key ''/a'' default_options,
      request_key ''/a'' default_options]"
  by code_simp

section \<open>Properties of the connection probe\<close>

lemma conclude_facts [simp]:
  "fst (conclude b now s) = b"
  "isConnected (snd (conclude b now s)) = Some b"
  "lastChecked (snd (conclude b now s)) = now"
  "checkInProgress (snd (conclude b now s)) = checkInProgress s"
  "probes (snd (conclude b now s)) = probes s"
  by (simp_all add: conclude_def)

lemma fallback_check_facts:
  "isConnected (snd (fallback_check now env s)) = Some (fst (fallback_check now env s))"
  "lastChecked (snd (fallback_check now env s)) = now"
  "probes (snd (fallback_check now env s)) = probes s"
  by (simp_all add: fallback_check_def split: query_result.splits)

lemma probe_body_facts:
  "isConnected (snd (probe_body now env s)) = Some (fst (probe_body now env s))"
  "lastChecked (snd (probe_body now env s)) = now"
  "probes (snd (probe_body now env s)) = probes s"
  by (simp_all add: probe_body_def fallback_check_facts split: query_result.splits)

lemma fallback_check_result:
  "fst (fallback_check now env s) \<longleftrightarrow>
     dummy_query env = NoError \<or>
     (\<exists>er. dummy_query env = ErrorResult er \<and>
        (code er = ''42P01'' \<or> (status er = Some 404 \<or> code er = ''404'') \<and> getSession_resolves env))"
  by (cases "dummy_query env") (simp_all add: fallback_check_def)

lemma probe_body_result:
  "fst (probe_body now env s) \<longleftrightarrow>
     resources_query env = NoError \<or>
     (\<exists>er. resources_query env = ErrorResult er \<and> code er = ''42P01'') \<or>
     dummy_query env = NoError \<or>
     (\<exists>er. dummy_query env = ErrorResult er \<and>
        (code er = ''42P01'' \<or> (status er = Some 404 \<or> code er = ''404'') \<and> getSession_resolves env))"
  by (cases "resources_query env") (auto simp: probe_body_def fallback_check_result)

text \<open>Once a probe has been started, the status is known whenever no probe is in progress.\<close>

lemma conn_step_known:
  "checkInProgress s \<or> isConnected s \<noteq> None
     \<Longrightarrow> checkInProgress (conn_step ev s) \<or> isConnected (conn_step ev s) \<noteq> None"
  by (cases ev) (auto simp: check_enter_def probe_finish_def probe_body_facts)

lemma conn_run_known:
  "checkInProgress s \<or> isConnected s \<noteq> None
     \<Longrightarrow> checkInProgress (fold conn_step evs s) \<or> isConnected (fold conn_step evs s) \<noteq> None"
proof (induction evs arbitrary: s)
  case Nil
  then show ?case by simp
next
  case (Cons ev evs)
  have "checkInProgress (conn_step ev s) \<or> isConnected (conn_step ev s) \<noteq> None"
    using Cons.prems by (rule conn_step_known)
  then have "checkInProgress (fold conn_step evs (conn_step ev s)) \<or>
             isConnected (fold conn_step evs (conn_step ev s)) \<noteq> None"
    by (rule Cons.IH)
  then show ?case by simp
qed

text \<open>
  C8, as amended. Every call to \<^verbatim>\<open>checkSupabaseConnection\<close> resolves to a boolean and never
  rejects. A probe resolves true when the query on \<^verbatim>\<open>resources\<close> succeeds or fails with the
  code 42P01, and otherwise, whether that query failed with another error or threw, when
  the fallback query succeeds, fails with 42P01, or fails with a 404 and the auth session
  call resolves; in every other case (the fallback query throws, or fails with another
  error) it resolves false. Every probe records its result in \<^verbatim>\<open>isConnected\<close>, sets
  \<^verbatim>\<open>lastChecked\<close> to the time the call was made at and clears \<^verbatim>\<open>checkInProgress\<close>. A call
  that returns without probing returns a boolean, and a call that waits for a probe
  returns a boolean whenever it finds no probe in progress.
\<close>

theorem probe_outcome:
  "isConnected (snd (probe_finish now env s)) = Some (fst (probe_finish now env s)) \<and>
   lastChecked (snd (probe_finish now env s)) = now \<and>
   \<not> checkInProgress (snd (probe_finish now env s)) \<and>
   (fst (probe_finish now env s) \<longleftrightarrow>
      resources_query env = NoError \<or>
      (\<exists>er. resources_query env = ErrorResult er \<and> code er = ''42P01'') \<or>
      dummy_query env = NoError \<or>
      (\<exists>er. dummy_query env = ErrorResult er \<and>
         (code er = ''42P01'' \<or> (status er = Some 404 \<or> code er = ''404'') \<and> getSession_resolves env))) \<and>
   (\<forall>r. fst (check_enter isBrowser now' forceCheck s') = Done r \<longrightarrow> r \<noteq> None) \<and>
   (fst (check_enter isBrowser now' forceCheck s') = Waiting \<longrightarrow>
      (\<forall>r. poll (fold conn_step evs s') = Some r \<longrightarrow> r \<noteq> None))"
proof (intro conjI allI impI)
  show "isConnected (snd (probe_finish now env s)) = Some (fst (probe_finish now env s))"
    by (simp add: probe_finish_def probe_body_facts)
  show "lastChecked (snd (probe_finish now env s)) = now"
    by (simp add: probe_finish_def probe_body_facts)
  show "\<not> checkInProgress (snd (probe_finish now env s))"
    by (simp add: probe_finish_def)
  show "fst (probe_finish now env s) \<longleftrightarrow>
      resources_query env = NoError \<or>
      (\<exists>er. resources_query env = ErrorResult er \<and> code er = ''42P01'') \<or>
      dummy_query env = NoError \<or>
      (\<exists>er. dummy_query env = ErrorResult er \<and>
         (code er = ''42P01'' \<or> (status er = Some 404 \<or> code er = ''404'') \<and> getSession_resolves env))"
    using probe_body_result[of now env s] by (simp add: probe_finish_def)
next
  fix r assume "fst (check_enter isBrowser now' forceCheck s') = Done r"
  then show "r \<noteq> None"
    by (auto simp: check_enter_def simp del: not_None_eq split: if_splits)
next
  fix r
  assume w: "fst (check_enter isBrowser now' forceCheck s') = Waiting"
    and p: "poll (fold conn_step evs s') = Some r"
  from w have "checkInProgress s'"
    by (auto simp: check_enter_def split: if_splits)
  then have "checkInProgress (fold conn_step evs s') \<or> isConnected (fold conn_step evs s') \<noteq> None"
    by (intro conn_run_known) simp
  with p show "r \<noteq> None"
    by (auto simp: poll_def split: if_splits)
qed

theorem probe_outcome_witness:
  "fst (probe_finish 1000
         \<lparr>resources_query = ErrorResult \<lparr>code = ''42P01'', status = None\<rparr>, dummy_query = Throws,
          getSession_resolves = False\<rparr>
         (snd (check_enter True 1000 True initial_status))) \<and>
   \<not> fst (probe_finish 1000
         \<lparr>resources_query = Throws, dummy_query = ErrorResult \<lparr>code = ''PGRST301'', status = Some 401\<rparr>,
          getSession_resolves = True\<rparr>
         (snd (check_enter True 1000 True initial_status))) \<and>
   fst (check_enter True 2000 False
         (snd (probe_finish 1000
           \<lparr>resources_query = Throws, dummy_query = Throws, getSession_resolves = True\<rparr>
           (snd (check_enter True 1000 True initial_status))))) = Done (Some False) \<and>
   poll (fold conn_step
           [ProbeEnds 1000 \<lparr>resources_query = NoError, dummy_query = Throws, getSession_resolves = True\<rparr>]
           (snd (check_enter True 1000 True initial_status))) = Some (Some True)"
proof -
  let ?s1 = "snd (check_enter True 1000 True initial_status)"
  let ?e1 = "\<lparr>resources_query = ErrorResult \<lparr>code = ''42P01'', status = None\<rparr>, dummy_query = Throws,
          getSession_resolves = False\<rparr>"
  let ?e2 = "\<lparr>resources_query = Throws, dummy_query = ErrorResult \<lparr>code = ''PGRST301'', status = Some 401\<rparr>,
          getSession_resolves = True\<rparr>"
  let ?e3 = "\<lparr>resources_query = Throws, dummy_query = Throws, getSession_resolves = True\<rparr>"
  let ?e4 = "\<lparr>resources_query = NoError, dummy_query = Throws, getSession_resolves = True\<rparr>"
  have a: "fst (probe_finish 1000 ?e1 ?s1)"
    using probe_outcome [of 1000 ?e1 ?s1] by simp
  have b: "\<not> fst (probe_finish 1000 ?e2 ?s1)"
    using probe_outcome [of 1000 ?e2 ?s1] by simp
  have c: "fst (check_enter True 2000 False (snd (probe_finish 1000 ?e3 ?s1))) = Done (Some False)"
    by (simp add: check_enter_def probe_finish_def probe_body_def fallback_check_def conclude_def
        initial_status_def)
  have w: "fst (check_enter True 1500 True ?s1) = Waiting"
    by (simp add: check_enter_def initial_status_def)
  have p: "poll (fold conn_step [ProbeEnds 1000 ?e4] ?s1) = Some (Some True)"
    by (simp add: poll_def check_enter_def probe_finish_def probe_body_def conclude_def
        initial_status_def)
  from a b c p show ?thesis by simp
qed

text \<open>
  The claim C8 as stated fails: the query on \<^verbatim>\<open>resources\<close> fails with the error PGRST116
  and the fallback query with a 404, neither of them 42P01, the auth session call
  resolves, and the probe resolves true and records \<^verbatim>\<open>isConnected = true\<close>.
\<close>

theorem probe_other_error_counterexample:
  "code \<lparr>code = ''PGRST116'', status = Some 406\<rparr> \<noteq> ''42P01'' \<and>
   code \<lparr>code = ''404'', status = Some 404\<rparr> \<noteq> ''42P01'' \<and>
   probe_finish 1000 not_found_env (snd (check_enter True 1000 True initial_status)) =
     (True, \<lparr>lastChecked = 1000, isConnected = Some True, checkInProgress = False, probes = 1\<rparr>)"
  by (simp add: not_found_env_def check_enter_def probe_finish_def probe_body_def
      fallback_check_def conclude_def initial_status_def)




end
